(* ===== verification/Prelude.thy ===== *)
theory Prelude
  imports Main "HOL-Library.Finite_Map" "HOL-Library.Countable"
    "HOL-Library.List_Lexorder" "HOL-Library.Char_ord" "HOL-Library.Multiset"
begin

text \<open>
  Shared vocabulary of the development.  Go strings are byte strings, modelled as
  \<^typ>\<open>string\<close> (a list of 8-bit characters); Go's \<open>map[string]string\<close> is a finite
  map \<^typ>\<open>(string, string) fmap\<close>, so that \<open>len(m)\<close> is \<open>fcard (fmdom m)\<close> and
  \<open>for k, v := range m\<close> enumerates \<open>sorted_list_of_fmap m\<close> in some order.
  The lemmas below are the generic facts on lists, multisets and finite maps that
  the component theories share.
\<close>

type_synonym sha = string
type_synonym path = string
type_synonym content = string

named_theorems model_simps \<open>evaluation rules of the model's operations\<close>

definition del_at :: "nat \<Rightarrow> 'a list \<Rightarrow> 'a list" where
  "del_at j xs = take j xs @ drop (Suc j) xs"

subsection \<open>Finite maps enumerated as lists\<close>

lemma length_sorted_list_of_fmap [simp]:
  "length (sorted_list_of_fmap m) = fcard (fmdom m)"
  by (simp add: sorted_list_of_fmap_def fcard.rep_eq length_sorted_list_of_set
      sorted_list_of_fset.rep_eq)

lemma map_fst_sorted_list_of_fmap:
  "map fst (sorted_list_of_fmap m) = sorted_list_of_fset (fmdom m)"
  by (simp add: sorted_list_of_fmap_def comp_def)

lemma distinct_map_fst_sorted_list_of_fmap [simp]:
  "distinct (map fst (sorted_list_of_fmap m))"
  by (simp add: map_fst_sorted_list_of_fmap sorted_list_of_fset.rep_eq)

lemma sorted_map_fst_sorted_list_of_fmap [simp]:
  "sorted (map fst (sorted_list_of_fmap m))"
  by (simp add: map_fst_sorted_list_of_fmap sorted_list_of_fset.rep_eq)

lemma mem_sorted_list_of_fmap [simp]:
  "((k, v) \<in> set (sorted_list_of_fmap m)) = (fmlookup m k = Some v)"
  by (metis distinct_map_fst_sorted_list_of_fmap map_of_SomeD map_of_is_SomeI
      map_of_sorted_list)

lemma fmupd_same: "fmlookup m k = Some v \<Longrightarrow> fmupd k v m = m"
  by (rule fmap_ext) auto

lemma fmlookup_add_restrict:
  "fmlookup (m ++\<^sub>f fmrestrict_set S n) k =
   (if k \<in> S then (case fmlookup n k of None \<Rightarrow> fmlookup m k | Some v \<Rightarrow> Some v) else fmlookup m k)"
  by (cases "fmlookup n k") (auto simp: fmlookup_add fmlookup_dom_iff)

lemma fcard_single [simp]: "fcard {|a|} = 1"
  by (simp add: fcard_finsert_disjoint)

lemma sorted_list_of_fset_single [simp]: "sorted_list_of_fset {|a|} = [a]"
  by (simp add: sorted_list_of_fset.rep_eq)

lemma sorted_list_of_fmap_single [simp]:
  "sorted_list_of_fmap (fmupd k v fmempty) = [(k, v)]"
  by (simp add: sorted_list_of_fmap_def)

lemma those_map_Some: "(\<And>y. y \<in> set xs \<Longrightarrow> f y = Some y) \<Longrightarrow> those (map f xs) = Some xs"
  by (induction xs) auto

subsection \<open>Removing the element at an index\<close>

lemma length_del_at [simp]: "j < length xs \<Longrightarrow> length (del_at j xs) = length xs - 1"
  by (simp add: del_at_def)

lemma mset_del_at: "j < length xs \<Longrightarrow> mset (del_at j xs) + {#xs ! j#} = mset xs"
proof -
  assume j: "j < length xs"
  then have "xs = take j xs @ xs ! j # drop (Suc j) xs"
    by (simp add: id_take_nth_drop)
  then have "mset xs = mset (take j xs) + mset (drop (Suc j) xs) + {#xs ! j#}"
    by (metis add_mset_add_single mset.simps(2) mset_append union_assoc union_mset_add_mset_right)
  then show ?thesis by (simp add: del_at_def)
qed

lemma del_at_0_Cons [simp]: "del_at 0 (x # xs) = xs"
  by (simp add: del_at_def)

lemma set_del_at_subset: "set (del_at j xs) \<subseteq> set xs"
  by (auto simp: del_at_def dest: in_set_takeD in_set_dropD)

subsection \<open>Lists updated at an index\<close>

lemma sum_list_map_update:
  "i < length xs \<Longrightarrow>
   sum_list (map f (xs[i := x])) + f (xs ! i) = sum_list (map f xs) + (f x :: nat)"
proof (induction xs arbitrary: i)
  case Nil
  then show ?case by simp
next
  case (Cons y ys)
  then show ?case by (cases i) auto
qed

lemma mset_concat_map_update:
  "i < length xs \<Longrightarrow>
   mset (concat (map f (xs[i := x]))) + mset (f (xs ! i)) = mset (concat (map f xs)) + mset (f x)"
proof (induction xs arbitrary: i)
  case Nil
  then show ?case by simp
next
  case (Cons y ys)
  then show ?case by (cases i) (auto simp: ac_simps)
qed

lemma list_all_update:
  "list_all P xs \<Longrightarrow> P x \<Longrightarrow> list_all P (xs[i := x])"
  by (auto simp: list_all_iff dest: set_update_subset_insert [THEN subsetD])

lemma mset_update_add:
  "i < length xs \<Longrightarrow> mset (xs[i := x]) + {#xs ! i#} = mset xs + {#x#}"
  by (simp add: mset_update)

end
