(* ===== verification/GoErrors.thy ===== *)
theory GoErrors
  imports Prelude
begin

text \<open>
  Go error values as the program uses them.  An error is either a leaf error carrying
  its message (what the API client returns) or an error built by
  \<open>fmt.Errorf("<prefix>%w", err)\<close>, which prints as the prefix followed by the
  wrapped error's message and which \<open>errors.Unwrap\<close> opens again.  A function that
  returns \<open>error\<close> returns \<open>goerr option\<close>, \<open>None\<close> being Go's \<open>nil\<close>.
\<close>

datatype goerr = ErrString string | ErrWrap string goerr

text \<open>\<open>err.Error()\<close>: the message of an error.\<close>

fun err_msg :: "goerr \<Rightarrow> string" where
  "err_msg (ErrString s) = s"
| "err_msg (ErrWrap p e) = p @ err_msg e"

text \<open>\<open>errors.Unwrap\<close>.\<close>

fun unwrap :: "goerr \<Rightarrow> goerr option" where
  "unwrap (ErrString s) = None"
| "unwrap (ErrWrap p e) = Some e"

text \<open>\<open>errors.Is(e, target)\<close> for comparable errors: some error of the unwrap chain
  equals the target.\<close>

fun err_is :: "goerr \<Rightarrow> goerr \<Rightarrow> bool" where
  "err_is (ErrString s) t = (ErrString s = t)"
| "err_is (ErrWrap p e) t = (ErrWrap p e = t \<or> err_is e t)"

text \<open>The innermost error of the chain: the cause reported by the API client.\<close>

fun root_cause :: "goerr \<Rightarrow> goerr" where
  "root_cause (ErrString s) = ErrString s"
| "root_cause (ErrWrap p e) = root_cause e"

lemma err_is_refl [simp]: "err_is e e"
  by (cases e) auto

lemma err_is_root_cause [simp]: "err_is e (root_cause e)"
  by (induction e) auto

lemma err_is_wrap [intro]: "err_is e t \<Longrightarrow> err_is (ErrWrap p e) t"
  by simp

lemma root_cause_wrap [simp]: "root_cause (ErrWrap p e) = root_cause e"
  by simp

end
