(* ===== verification/GitApi.thy ===== *)
theory GitApi
  imports GoErrors
begin

text \<open>
  The hosted Git API that the program calls through the go-github client
  (\<open>client.Git.GetRef\<close>, \<open>CreateBlob\<close>, \<open>CreateTree\<close>, \<open>CreateCommit\<close>,
  \<open>UpdateRef\<close>).  This code is not part of the repository: it is modelled from the
  spec (which names the five operations) and from Git's object model.  A repository
  is a content-addressed object store (an object is stored under its hash) and a
  table of references; the server holds repositories under their owner and name and
  accepts the bearer tokens it knows.  Tree objects keep their entries sorted by
  path, as Git's canonical tree format does.  The hash function is a parameter
  (SHA-1 in Git); theorems that read objects back assume it is collision-free
  (\<open>inj\<close>).  Commit authorship and dates are not modelled.
\<close>

datatype gobject =
  GBlob content
| GTree "(string \<times> path \<times> sha) list"   \<comment> \<open>mode, path, object id\<close>
| GCommit string sha "sha list"           \<comment> \<open>message, tree, parents\<close>

instance gobject :: countable
  by countable_datatype

type_synonym hashfn = "gobject \<Rightarrow> sha"

record repo =
  objects :: "(sha, gobject) fmap"
  refs :: "(string, sha) fmap"

record server =
  repos :: "(string \<times> string, repo) fmap"
  tokens :: "string list"

text \<open>The client-side values of go-github: \<open>github.Reference\<close> (with its
  \<open>Object.SHA\<close>), \<open>github.TreeEntry\<close>, \<open>github.Tree\<close> and \<open>github.Commit\<close>.\<close>

record git_ref =
  ref_name :: string
  ref_sha :: sha

record tree_entry =
  te_path :: path
  te_mode :: string
  te_type :: string
  te_sha :: sha

record gh_tree =
  tree_sha :: sha
  tree_entries :: "tree_entry list"

record gh_commit =
  commit_sha :: sha
  commit_url :: string
  commit_message :: string
  commit_tree :: sha
  commit_parents :: "sha list"

type_synonym 'a api_result = "(goerr + 'a) \<times> server"

subsection \<open>Repository-level operations\<close>

definition err_404 :: goerr where "err_404 = ErrString ''404 Not Found''"
definition err_401 :: goerr where "err_401 = ErrString ''401 Bad credentials''"
definition err_422 :: "string \<Rightarrow> goerr" where "err_422 m = ErrString (''422 '' @ m)"

definition put_object :: "hashfn \<Rightarrow> gobject \<Rightarrow> repo \<Rightarrow> repo" where
  "put_object h ob r = r\<lparr>objects := fmupd (h ob) ob (objects r)\<rparr>"

definition get_ref_op :: "string \<Rightarrow> repo \<Rightarrow> goerr + (git_ref \<times> repo)" where
  "get_ref_op name r =
     (case fmlookup (refs r) name of
        None \<Rightarrow> Inl err_404
      | Some s \<Rightarrow> Inr (\<lparr>ref_name = name, ref_sha = s\<rparr>, r))"

definition create_blob_op :: "hashfn \<Rightarrow> content \<Rightarrow> string \<Rightarrow> repo \<Rightarrow> goerr + (sha \<times> repo)" where
  "create_blob_op h c enc r =
     (if enc = ''utf-8'' then Inr (h (GBlob c), put_object h (GBlob c) r)
      else Inl (err_422 ''unsupported encoding''))"

definition is_blob :: "(sha, gobject) fmap \<Rightarrow> sha \<Rightarrow> bool" where
  "is_blob objs s = (case fmlookup objs s of Some (GBlob _) \<Rightarrow> True | _ \<Rightarrow> False)"

definition is_commit :: "(sha, gobject) fmap \<Rightarrow> sha \<Rightarrow> bool" where
  "is_commit objs s = (case fmlookup objs s of Some (GCommit _ _ _) \<Rightarrow> True | _ \<Rightarrow> False)"

definition base_items :: "(sha, gobject) fmap \<Rightarrow> sha \<Rightarrow> (string \<times> path \<times> sha) list option" where
  "base_items objs b =
     (if b = '''' then Some []
      else case fmlookup objs b of Some (GTree its) \<Rightarrow> Some its | _ \<Rightarrow> None)"

definition entry_item :: "tree_entry \<Rightarrow> string \<times> path \<times> sha" where
  "entry_item e = (te_mode e, te_path e, te_sha e)"

definition item_entry :: "string \<times> path \<times> sha \<Rightarrow> tree_entry" where
  "item_entry it = (case it of (m, p, s) \<Rightarrow>
     \<lparr>te_path = p, te_mode = m, te_type = ''blob'', te_sha = s\<rparr>)"

text \<open>The tree built from a base tree and new entries: base entries at the paths of
  new entries are replaced, and the result is sorted by path.\<close>

definition tree_items :: "(string \<times> path \<times> sha) list \<Rightarrow> tree_entry list \<Rightarrow> (string \<times> path \<times> sha) list" where
  "tree_items base es =
     sort_key (\<lambda>it. fst (snd it))
       (filter (\<lambda>it. fst (snd it) \<notin> set (map te_path es)) base @ map entry_item es)"

definition create_tree_op :: "hashfn \<Rightarrow> sha \<Rightarrow> tree_entry list \<Rightarrow> repo \<Rightarrow> goerr + (gh_tree \<times> repo)" where
  "create_tree_op h b es r =
     (case base_items (objects r) b of
        None \<Rightarrow> Inl (err_422 ''base_tree is not a valid tree'')
      | Some its \<Rightarrow>
          if \<not> list_all (\<lambda>e. te_type e = ''blob'' \<and> is_blob (objects r) (te_sha e)) es
          then Inl (err_422 ''tree.sha is not a valid blob'')
          else let t = GTree (tree_items its es)
               in Inr (\<lparr>tree_sha = h t, tree_entries = map item_entry (tree_items its es)\<rparr>,
                       put_object h t r))"

definition commit_url_of :: "string \<Rightarrow> string \<Rightarrow> sha \<Rightarrow> string" where
  "commit_url_of ow rp s = ''https://github.com/'' @ ow @ ''/'' @ rp @ ''/commit/'' @ s"

definition create_commit_op ::
  "hashfn \<Rightarrow> string \<Rightarrow> string \<Rightarrow> string \<Rightarrow> sha \<Rightarrow> sha list \<Rightarrow> repo \<Rightarrow> goerr + (gh_commit \<times> repo)" where
  "create_commit_op h ow rp msg t ps r =
     (case fmlookup (objects r) t of
        Some (GTree _) \<Rightarrow>
          if \<not> list_all (is_commit (objects r)) ps
          then Inl (err_422 ''parent is not a commit'')
          else let c = GCommit msg t ps
               in Inr (\<lparr>commit_sha = h c, commit_url = commit_url_of ow rp (h c),
                        commit_message = msg, commit_tree = t, commit_parents = ps\<rparr>,
                       put_object h c r)
      | _ \<Rightarrow> Inl (err_422 ''tree is not a valid tree''))"

text \<open>Ancestry along parent links, breadth first, one level per unit of fuel.  The
  fuel given by \<open>fast_forward\<close> is the number of stored objects, which bounds the
  length of every path of distinct commits.\<close>

definition parents_of :: "(sha, gobject) fmap \<Rightarrow> sha \<Rightarrow> sha list" where
  "parents_of objs s = (case fmlookup objs s of Some (GCommit _ _ ps) \<Rightarrow> ps | _ \<Rightarrow> [])"

fun ancestor_within :: "(sha, gobject) fmap \<Rightarrow> nat \<Rightarrow> sha list \<Rightarrow> sha \<Rightarrow> bool" where
  "ancestor_within objs 0 front a = (a \<in> set front)"
| "ancestor_within objs (Suc n) front a =
     (a \<in> set front \<or> ancestor_within objs n (concat (map (parents_of objs) front)) a)"

definition fast_forward :: "(sha, gobject) fmap \<Rightarrow> sha \<Rightarrow> sha \<Rightarrow> bool" where
  "fast_forward objs old new = ancestor_within objs (fcard (fmdom objs)) [new] old"

definition update_ref_op :: "git_ref \<Rightarrow> bool \<Rightarrow> repo \<Rightarrow> goerr + (git_ref \<times> repo)" where
  "update_ref_op rf force r =
     (case fmlookup (refs r) (ref_name rf) of
        None \<Rightarrow> Inl (err_422 ''Reference does not exist'')
      | Some old \<Rightarrow>
          if \<not> is_commit (objects r) (ref_sha rf) then Inl (err_422 ''Object does not exist'')
          else if \<not> force \<and> \<not> fast_forward (objects r) old (ref_sha rf)
          then Inl (err_422 ''Update is not a fast forward'')
          else Inr (rf, r\<lparr>refs := fmupd (ref_name rf) (ref_sha rf) (refs r)\<rparr>))"

subsection \<open>Server-level calls\<close>

text \<open>Every call presents the client's bearer token and names the repository by
  owner and name; the repository-level operation then runs on that repository.\<close>

definition with_repo ::
  "string \<Rightarrow> string \<Rightarrow> string \<Rightarrow> (repo \<Rightarrow> goerr + ('a \<times> repo)) \<Rightarrow> server \<Rightarrow> 'a api_result" where
  "with_repo tok ow rp f s =
     (if tok \<notin> set (tokens s) then (Inl err_401, s)
      else case fmlookup (repos s) (ow, rp) of
        None \<Rightarrow> (Inl err_404, s)
      | Some r \<Rightarrow> (case f r of
          Inl e \<Rightarrow> (Inl e, s)
        | Inr (x, r') \<Rightarrow> (Inr x, s\<lparr>repos := fmupd (ow, rp) r' (repos s)\<rparr>)))"

text \<open>The network between client and server: a request is served, or dropped before
  the server sees it, or served with its response lost; in the last two cases the
  client sees a transport error.\<close>

datatype net = Served | Dropped goerr | Lost goerr

definition net_call :: "net \<Rightarrow> (server \<Rightarrow> 'a api_result) \<Rightarrow> server \<Rightarrow> 'a api_result" where
  "net_call n f s =
     (case n of
        Served \<Rightarrow> f s
      | Dropped e \<Rightarrow> (Inl e, s)
      | Lost e \<Rightarrow> (Inl e, snd (f s)))"

subsection \<open>Reading a branch back\<close>

text \<open>The abstract view of a repository that \<open>commitMultipleFiles\<close> promises to
  change: the files of the tree of the commit a branch points to, as a list of
  (path, content) pairs in path order.\<close>

definition read_tree :: "(sha, gobject) fmap \<Rightarrow> sha \<Rightarrow> (path \<times> content) list option" where
  "read_tree objs t =
     (case fmlookup objs t of
        Some (GTree its) \<Rightarrow>
          those (map (\<lambda>(m, p, s). case fmlookup objs s of Some (GBlob v) \<Rightarrow> Some (p, v) | _ \<Rightarrow> None) its)
      | _ \<Rightarrow> None)"

definition read_branch :: "server \<Rightarrow> string \<Rightarrow> string \<Rightarrow> string \<Rightarrow> (path \<times> content) list option" where
  "read_branch s ow rp br =
     (case fmlookup (repos s) (ow, rp) of
        None \<Rightarrow> None
      | Some r \<Rightarrow>
          (case fmlookup (refs r) (''refs/heads/'' @ br) of
             None \<Rightarrow> None
           | Some c \<Rightarrow>
               (case fmlookup (objects r) c of
                  Some (GCommit m t ps) \<Rightarrow> read_tree (objects r) t
                | _ \<Rightarrow> None)))"

subsection \<open>How the operations change a repository\<close>

lemma get_ref_op_Inr: "get_ref_op name r = Inr (a, r') \<Longrightarrow> r' = r \<and> ref_name a = name"
  by (auto simp: get_ref_op_def split: option.splits)

lemma create_blob_op_Inr:
  "create_blob_op h v enc r = Inr (a, r') \<Longrightarrow>
   a = h (GBlob v) \<and> r' = put_object h (GBlob v) r"
  by (auto simp: create_blob_op_def split: if_splits)

lemma create_tree_op_Inr:
  "create_tree_op h b es r = Inr (t, r') \<Longrightarrow>
   \<exists>its. base_items (objects r) b = Some its \<and>
     tree_sha t = h (GTree (tree_items its es)) \<and> r' = put_object h (GTree (tree_items its es)) r"
  by (auto simp: create_tree_op_def Let_def split: option.splits if_splits)

lemma create_commit_op_Inr:
  "create_commit_op h ow rp msg t ps r = Inr (cm, r') \<Longrightarrow>
   commit_sha cm = h (GCommit msg t ps) \<and> r' = put_object h (GCommit msg t ps) r"
  by (auto simp: create_commit_op_def Let_def split: option.splits gobject.splits if_splits)

lemma update_ref_op_Inr:
  "update_ref_op rf force r = Inr (a, r') \<Longrightarrow>
   r' = r\<lparr>refs := fmupd (ref_name rf) (ref_sha rf) (refs r)\<rparr> \<and> ref_name rf \<in> fmdom' (refs r)"
  by (auto simp: update_ref_op_def fmdom'I split: option.splits if_splits)

lemma put_object_keeps:
  "inj h \<Longrightarrow> fmlookup (objects r) (h ob) = Some ob \<Longrightarrow>
   fmlookup (objects (put_object h ob' r)) (h ob) = Some ob"
  by (auto simp: put_object_def dest: injD)

lemma put_object_stores: "fmlookup (objects (put_object h ob r)) (h ob) = Some ob"
  by (simp add: put_object_def)

lemma put_object_refs [simp]: "refs (put_object h ob r) = refs r"
  by (simp add: put_object_def)

lemma with_repo_Inl: "with_repo tok ow rp f s = (Inl e, s') \<Longrightarrow> s' = s"
  by (auto simp: with_repo_def split: if_splits option.splits sum.splits)

lemma with_repo_Inr:
  "with_repo tok ow rp f s = (Inr a, s') \<Longrightarrow>
   \<exists>r r'. fmlookup (repos s) (ow, rp) = Some r \<and> f r = Inr (a, r') \<and>
     s' = s\<lparr>repos := fmupd (ow, rp) r' (repos s)\<rparr>"
  by (auto simp: with_repo_def split: if_splits option.splits sum.splits)

lemma with_repo_state:
  "snd (with_repo tok ow rp f s) = s \<or>
   (\<exists>r a r'. fmlookup (repos s) (ow, rp) = Some r \<and> f r = Inr (a, r') \<and>
     snd (with_repo tok ow rp f s) = s\<lparr>repos := fmupd (ow, rp) r' (repos s)\<rparr>)"
  by (auto simp: with_repo_def split: if_splits option.splits sum.splits)

lemma net_call_Inr: "net_call n f s = (Inr a, s') \<Longrightarrow> f s = (Inr a, s')"
  by (auto simp: net_call_def split: net.splits)

lemma net_call_state: "net_call n f s = (res, s') \<Longrightarrow> s' = s \<or> s' = snd (f s)"
  by (auto simp: net_call_def split: net.splits)


lemmas api_model_simps [model_simps] =
  err_404_def err_401_def err_422_def put_object_def get_ref_op_def create_blob_op_def is_blob_def
  is_commit_def base_items_def entry_item_def item_entry_def tree_items_def create_tree_op_def
  commit_url_of_def create_commit_op_def parents_of_def fast_forward_def update_ref_op_def
  with_repo_def net_call_def read_tree_def read_branch_def

end
