(* ===== verification/Channel.thy ===== *)
theory Channel
  imports Prelude
begin

text \<open>
  Go's buffered channel \<open>make(chan T, n)\<close>: a FIFO buffer with a capacity.  A send
  on a full buffer and a receive on an empty one block; blocking is the value
  \<open>None\<close>, so that a scheduler that picks a blocked operation makes no step.  The
  direct hand-over from a sender to a waiting receiver of an empty channel (the only
  way an unbuffered channel, capacity 0, transfers a value) is a step of the program
  model, in theory \<open>CommitFiles\<close>, since it moves two goroutines at once.
\<close>

record 'a chan =
  buf :: "'a list"
  ccap :: nat

definition make_chan :: "nat \<Rightarrow> 'a chan" where
  "make_chan n = \<lparr>buf = [], ccap = n\<rparr>"

definition chan_send :: "'a chan \<Rightarrow> 'a \<Rightarrow> 'a chan option" where
  "chan_send ch x =
     (if length (buf ch) < ccap ch then Some (ch\<lparr>buf := buf ch @ [x]\<rparr>) else None)"

definition chan_recv :: "'a chan \<Rightarrow> ('a \<times> 'a chan) option" where
  "chan_recv ch = (case buf ch of [] \<Rightarrow> None | x # xs \<Rightarrow> Some (x, ch\<lparr>buf := xs\<rparr>))"

text \<open>The channel's own invariant: the buffer never holds more than the capacity.\<close>

definition chan_ok :: "'a chan \<Rightarrow> bool" where
  "chan_ok ch \<longleftrightarrow> length (buf ch) \<le> ccap ch"

lemma make_chan_simps [simp]:
  "buf (make_chan n) = []" "ccap (make_chan n) = n"
  by (simp_all add: make_chan_def)

lemma chan_send_Some_iff:
  "(chan_send ch x = Some ch') = (length (buf ch) < ccap ch \<and> ch' = ch\<lparr>buf := buf ch @ [x]\<rparr>)"
  by (auto simp: chan_send_def)

lemma chan_send_None_iff [simp]:
  "(chan_send ch x = None) = (ccap ch \<le> length (buf ch))"
  by (auto simp: chan_send_def)

lemma chan_recv_Some_iff:
  "(chan_recv ch = Some (x, ch')) = (\<exists>xs. buf ch = x # xs \<and> ch' = ch\<lparr>buf := xs\<rparr>)"
  by (auto simp: chan_recv_def split: list.splits)

lemma chan_recv_None_iff [simp]: "(chan_recv ch = None) = (buf ch = [])"
  by (auto simp: chan_recv_def split: list.splits)

lemmas chan_ops_Some = chan_send_Some_iff chan_recv_Some_iff

end
