(* ===== verification/CommitFiles.thy ===== *)
theory CommitFiles
  imports GitApi Channel
begin

text \<open>
  \<open>commitMultipleFiles\<close> (src/main.go, lines 14--90) as a small-step semantics.
  A configuration holds the server, the blob goroutines started by the \<open>range\<close>
  loop, the \<open>results\<close> channel, the program counter of the calling goroutine and
  what it printed.  The program counter carries the function's live locals (the
  reference from \<open>GetRef\<close>, the loop counter, the collected \<open>entries\<close>, the
  tree and the commit).  A step is chosen by a scheduler: the calling goroutine, the
  next iteration of the \<open>range\<close> loop (Go's map order is unspecified, so the
  scheduler picks which entry), or one blob goroutine; every network call also takes
  the network's behaviour (\<^typ>\<open>net\<close>) as part of the choice.  A choice that is not
  enabled (a blocked channel operation, a finished goroutine) gives \<open>None\<close>.
\<close>

subsection \<open>State\<close>

text \<open>The arguments of \<open>commitMultipleFiles\<close>, the client's bearer token, and
  the hash function of the server's object store.\<close>

record ctx =
  hsh :: hashfn
  token :: string
  owner :: string
  repo_name :: string
  branch :: string
  files :: "(path, content) fmap"
  message :: string

text \<open>\<open>type blobResult struct { path, sha string; err error }\<close>\<close>

record blob_result =
  br_path :: path
  br_sha :: sha
  br_err :: "goerr option"

text \<open>A blob goroutine: about to call \<open>CreateBlob\<close>, about to send its result, or
  returned.\<close>

datatype gor = GCreate path content | GSend blob_result | GExit

text \<open>Where the calling goroutine is, with its live locals.\<close>

datatype mpc =
  PGetRef
| PSpawn git_ref "(path \<times> content) list"       \<comment> \<open>the range loop, entries not yet visited\<close>
| PCollect git_ref nat "tree_entry list"      \<comment> \<open>the collect loop: \<open>i\<close> and \<open>entries\<close>\<close>
| PTree git_ref "tree_entry list"
| PCommit git_ref gh_tree
| PUpdate git_ref gh_commit
| PRet "goerr option"                          \<comment> \<open>returned; \<open>None\<close> is \<open>nil\<close>\<close>

record cfg =
  srv :: server
  gors :: "gor list"
  results :: "blob_result chan"
  pc :: mpc
  stdout :: "string list"

datatype sched = SMain net | SSpawn nat | SGor nat net

definition nfiles :: "ctx \<Rightarrow> nat" where
  "nfiles x = fcard (fmdom (files x))"

definition init_cfg :: "server \<Rightarrow> cfg" where
  "init_cfg s = \<lparr>srv = s, gors = [], results = make_chan 0, pc = PGetRef, stdout = []\<rparr>"

text \<open>A call of the client on the program's repository, over the network.\<close>

definition api_call :: "ctx \<Rightarrow> net \<Rightarrow> (repo \<Rightarrow> goerr + ('a \<times> repo)) \<Rightarrow> server \<Rightarrow> 'a api_result" where
  "api_call x n f s = net_call n (with_repo (token x) (owner x) (repo_name x) f) s"

subsection \<open>The blob goroutines (lines 35--47)\<close>

text \<open>The value a goroutine sends after its \<open>CreateBlob\<close> call (lines 41--45).\<close>

definition blob_call_result :: "path \<Rightarrow> goerr + sha \<Rightarrow> blob_result" where
  "blob_call_result p res =
     (case res of
        Inl e \<Rightarrow> \<lparr>br_path = p, br_sha = '''', br_err = Some e\<rparr>
      | Inr s \<Rightarrow> \<lparr>br_path = p, br_sha = s, br_err = None\<rparr>)"

text \<open>The tree entry built from a successful result (lines 56--61).\<close>

definition blob_entry :: "blob_result \<Rightarrow> tree_entry" where
  "blob_entry r = \<lparr>te_path = br_path r, te_mode = ''100644'', te_type = ''blob'', te_sha = br_sha r\<rparr>"

text \<open>One iteration of the collect loop after \<open>r := <-results\<close> (lines 53--61):
  return the wrapped error, or append the entry and go on with \<open>i + 1\<close>.\<close>

definition collect_result :: "git_ref \<Rightarrow> nat \<Rightarrow> tree_entry list \<Rightarrow> blob_result \<Rightarrow> mpc" where
  "collect_result rf i es r =
     (case br_err r of
        Some e \<Rightarrow> PRet (Some (ErrWrap (''blob error for '' @ br_path r @ '': '') e))
      | None \<Rightarrow> PCollect rf (Suc i) (es @ [blob_entry r]))"

text \<open>The calling goroutine is blocked in \<open><-results\<close> on an empty buffer.\<close>

definition receiver_waiting :: "ctx \<Rightarrow> cfg \<Rightarrow> bool" where
  "receiver_waiting x c =
     (case pc c of PCollect rf i es \<Rightarrow> i < nfiles x \<and> buf (results c) = [] | _ \<Rightarrow> False)"

text \<open>A step of blob goroutine \<open>j\<close>: the \<open>CreateBlob\<close> call, or the send
  \<open>results <- r\<close>.  As in Go's runtime, a send hands the value directly to a waiting
  receiver, else appends it to the buffer if there is room, else blocks.\<close>

definition gor_step :: "ctx \<Rightarrow> nat \<Rightarrow> net \<Rightarrow> cfg \<Rightarrow> cfg option" where
  "gor_step x j n c =
     (if length (gors c) \<le> j then None
      else case gors c ! j of
        GCreate p v \<Rightarrow>
          (case api_call x n (create_blob_op (hsh x) v ''utf-8'') (srv c) of
             (res, s') \<Rightarrow> Some (c\<lparr>srv := s', gors := (gors c)[j := GSend (blob_call_result p res)]\<rparr>))
      | GSend r \<Rightarrow>
          (if receiver_waiting x c then
             (case pc c of
                PCollect rf i es \<Rightarrow>
                  Some (c\<lparr>gors := (gors c)[j := GExit], pc := collect_result rf i es r\<rparr>)
              | _ \<Rightarrow> None)
           else case chan_send (results c) r of
             None \<Rightarrow> None
           | Some ch \<Rightarrow> Some (c\<lparr>results := ch, gors := (gors c)[j := GExit]\<rparr>))
      | GExit \<Rightarrow> None)"

text \<open>One iteration of \<open>for path, content := range files\<close>: start the goroutine
  for the \<open>j\<close>-th entry not yet visited.\<close>

definition spawn_step :: "nat \<Rightarrow> cfg \<Rightarrow> cfg option" where
  "spawn_step j c =
     (case pc c of
        PSpawn rf kvs \<Rightarrow>
          if j < length kvs
          then Some (c\<lparr>gors := gors c @ [GCreate (fst (kvs ! j)) (snd (kvs ! j))],
                       pc := PSpawn rf (del_at j kvs)\<rparr>)
          else None
      | _ \<Rightarrow> None)"

subsection \<open>The calling goroutine (lines 15--89)\<close>

definition commit_created_line :: "string \<Rightarrow> string" where
  "commit_created_line url = [CHR 0xE2, CHR 0x9C, CHR 0x85] @ '' Commit created: '' @ url"

definition main_step :: "ctx \<Rightarrow> net \<Rightarrow> cfg \<Rightarrow> cfg option" where
  "main_step x n c =
     (case pc c of
        PGetRef \<Rightarrow>
          (case api_call x n (get_ref_op (''refs/heads/'' @ branch x)) (srv c) of
             (Inl e, s') \<Rightarrow> Some (c\<lparr>srv := s', pc := PRet (Some (ErrWrap ''GetRef: '' e))\<rparr>)
           | (Inr rf, s') \<Rightarrow>
               Some (c\<lparr>srv := s', results := make_chan (nfiles x),
                       pc := PSpawn rf (sorted_list_of_fmap (files x))\<rparr>))
      | PSpawn rf kvs \<Rightarrow>
          (if kvs = [] then Some (c\<lparr>pc := PCollect rf 0 []\<rparr>) else None)
      | PCollect rf i es \<Rightarrow>
          (if i < nfiles x then
             (case chan_recv (results c) of
                None \<Rightarrow> None
              | Some (r, ch) \<Rightarrow> Some (c\<lparr>results := ch, pc := collect_result rf i es r\<rparr>))
           else Some (c\<lparr>pc := PTree rf es\<rparr>))
      | PTree rf es \<Rightarrow>
          (case api_call x n (create_tree_op (hsh x) '''' es) (srv c) of
             (Inl e, s') \<Rightarrow> Some (c\<lparr>srv := s', pc := PRet (Some (ErrWrap ''CreateTree: '' e))\<rparr>)
           | (Inr t, s') \<Rightarrow> Some (c\<lparr>srv := s', pc := PCommit rf t\<rparr>))
      | PCommit rf t \<Rightarrow>
          (case api_call x n (create_commit_op (hsh x) (owner x) (repo_name x) (message x) (tree_sha t) []) (srv c) of
             (Inl e, s') \<Rightarrow> Some (c\<lparr>srv := s', pc := PRet (Some (ErrWrap ''CreateCommit: '' e))\<rparr>)
           | (Inr cm, s') \<Rightarrow> Some (c\<lparr>srv := s', pc := PUpdate rf cm\<rparr>))
      | PUpdate rf cm \<Rightarrow>
          (case api_call x n (update_ref_op (rf\<lparr>ref_sha := commit_sha cm\<rparr>) True) (srv c) of
             (Inl e, s') \<Rightarrow> Some (c\<lparr>srv := s', pc := PRet (Some (ErrWrap ''UpdateRef: '' e))\<rparr>)
           | (Inr _, s') \<Rightarrow>
               Some (c\<lparr>srv := s', stdout := stdout c @ [commit_created_line (commit_url cm)],
                       pc := PRet None\<rparr>))
      | PRet _ \<Rightarrow> None)"

fun cmf_step :: "ctx \<Rightarrow> sched \<Rightarrow> cfg \<Rightarrow> cfg option" where
  "cmf_step x (SMain n) c = main_step x n c"
| "cmf_step x (SSpawn j) c = spawn_step j c"
| "cmf_step x (SGor j n) c = gor_step x j n c"

text \<open>The configurations reachable from a call of \<open>commitMultipleFiles\<close> on server
  \<open>s0\<close>, under every schedule and every behaviour of the network.\<close>

inductive reach :: "ctx \<Rightarrow> server \<Rightarrow> cfg \<Rightarrow> bool" for x s0 where
  init: "reach x s0 (init_cfg s0)"
| step: "reach x s0 c \<Longrightarrow> cmf_step x ch c = Some c' \<Longrightarrow> reach x s0 c'"

text \<open>A given schedule, run step by step: the executable counterpart of \<open>reach\<close>.\<close>

fun run :: "ctx \<Rightarrow> sched list \<Rightarrow> cfg \<Rightarrow> cfg option" where
  "run x [] c = Some c"
| "run x (ch # chs) c = (case cmf_step x ch c of None \<Rightarrow> None | Some c' \<Rightarrow> run x chs c')"

lemma run_reach: "run x chs c = Some c' \<Longrightarrow> reach x s0 c \<Longrightarrow> reach x s0 c'"
proof (induction chs arbitrary: c)
  case Nil
  then show ?case by simp
next
  case (Cons ch chs)
  then show ?case by (auto split: option.splits intro: reach.step)
qed


lemmas step_model_simps [model_simps] =
  nfiles_def init_cfg_def blob_call_result_def blob_entry_def collect_result_def
  receiver_waiting_def gor_step_def spawn_step_def api_call_def commit_created_line_def main_step_def
  make_chan_def chan_send_def chan_recv_def

end
