(* ===== verification/FanOut.thy ===== *)
theory FanOut
  imports CommitFiles
begin

text \<open>
  The concurrent part of \<open>commitMultipleFiles\<close>: the fan-out of one goroutine per
  file and the fan-in through \<open>results\<close>, a channel of capacity \<open>len(files)\<close>.
  This theory proves that a goroutine's send never blocks, even after the calling
  goroutine has returned early; that no reachable configuration is stuck before the
  function has returned and every goroutine has exited; and that every execution,
  under every schedule, ends after at most \<open>4 * len(files) + 8\<close> steps.
\<close>

subsection \<open>Counting goroutines and channel slots\<close>

fun live :: "gor \<Rightarrow> nat" where
  "live GExit = 0"
| "live (GCreate p v) = 1"
| "live (GSend r) = 1"

definition active_count :: "cfg \<Rightarrow> nat" where
  "active_count c = sum_list (map live (gors c))"

definition to_spawn :: "mpc \<Rightarrow> nat" where
  "to_spawn p = (case p of PSpawn rf kvs \<Rightarrow> length kvs | _ \<Rightarrow> 0)"

text \<open>The capacity invariant: every file not yet visited by the range loop and every
  live goroutine still owns a free slot of the buffer; while the function collects,
  the files are exactly split between those received, those in the buffer and those
  of live goroutines.\<close>

definition cap_inv :: "ctx \<Rightarrow> cfg \<Rightarrow> bool" where
  "cap_inv x c \<longleftrightarrow>
     to_spawn (pc c) + active_count c + length (buf (results c)) \<le> ccap (results c) \<and>
     (pc c = PGetRef \<longrightarrow> gors c = []) \<and>
     (case pc c of
        PSpawn rf kvs \<Rightarrow> length kvs + active_count c + length (buf (results c)) = nfiles x
      | PCollect rf i es \<Rightarrow> i + active_count c + length (buf (results c)) = nfiles x
      | _ \<Rightarrow> True)"

definition finished :: "cfg \<Rightarrow> bool" where
  "finished c \<longleftrightarrow> (\<exists>r. pc c = PRet r) \<and> (\<forall>g \<in> set (gors c). g = GExit)"

text \<open>A rank that every step decreases: the calling goroutine's remaining work, with
  three units per file not yet visited by the range loop (one for the loop step, two
  for the goroutine it starts), plus the remaining steps of every goroutine.\<close>

definition main_rank :: "nat \<Rightarrow> mpc \<Rightarrow> nat" where
  "main_rank n p =
     (case p of
        PGetRef \<Rightarrow> 4 * n + 8
      | PSpawn rf kvs \<Rightarrow> 3 * length kvs + n + 6
      | PCollect rf i es \<Rightarrow> n - i + 4
      | PTree rf es \<Rightarrow> 3
      | PCommit rf t \<Rightarrow> 2
      | PUpdate rf cm \<Rightarrow> 1
      | PRet r \<Rightarrow> 0)"

fun gor_rank :: "gor \<Rightarrow> nat" where
  "gor_rank (GCreate p v) = 2"
| "gor_rank (GSend r) = 1"
| "gor_rank GExit = 0"

definition rank :: "ctx \<Rightarrow> cfg \<Rightarrow> nat" where
  "rank x c = main_rank (nfiles x) (pc c) + sum_list (map gor_rank (gors c))"

subsection \<open>The capacity invariant\<close>

lemma active_count_update:
  "j < length (gors c) \<Longrightarrow>
   sum_list (map live ((gors c)[j := g])) + live (gors c ! j) = active_count c + live g"
  unfolding active_count_def by (rule sum_list_map_update)

lemma cap_inv_init: "cap_inv x (init_cfg s)"
  by (simp add: cap_inv_def init_cfg_def active_count_def to_spawn_def)

lemma main_step_cap_inv:
  assumes "main_step x n c = Some c'" and "cap_inv x c"
  shows "cap_inv x c'"
proof (cases "pc c")
  case (PCollect rf i es)
  then show ?thesis
    using assms
    by (auto simp: main_step_def cap_inv_def to_spawn_def chan_recv_Some_iff active_count_def
        collect_result_def split: if_splits option.splits prod.splits)
qed (use assms in \<open>auto simp: main_step_def cap_inv_def to_spawn_def active_count_def nfiles_def
       split: if_splits prod.splits sum.splits\<close>)

lemma spawn_step_cap_inv:
  assumes "spawn_step j c = Some c'" and "cap_inv x c"
  shows "cap_inv x c'"
  using assms
  by (auto simp: spawn_step_def cap_inv_def to_spawn_def active_count_def
      split: mpc.splits if_splits)

lemma gor_step_cap_inv:
  assumes st: "gor_step x j n c = Some c'" and inv: "cap_inv x c"
  shows "cap_inv x c'"
proof -
  from st have j: "j < length (gors c)"
    by (auto simp: gor_step_def split: if_splits)
  with inv have not_get: "pc c \<noteq> PGetRef"
    by (auto simp: cap_inv_def)
  note upd = active_count_update [OF j]
  show ?thesis
  proof (cases "gors c ! j")
    case (GCreate p v)
    with st j obtain res s' where
      c': "c' = c\<lparr>srv := s', gors := (gors c)[j := GSend (blob_call_result p res)]\<rparr>"
      by (auto simp: gor_step_def split: prod.splits)
    from upd [of "GSend (blob_call_result p res)"] GCreate have "active_count c' = active_count c"
      by (simp add: c' active_count_def)
    with inv not_get show ?thesis
      by (simp add: cap_inv_def c' split: mpc.splits)
  next
    case (GSend r)
    from upd [of GExit] GSend have act: "active_count (c\<lparr>gors := (gors c)[j := GExit]\<rparr>) + 1 = active_count c"
      by (simp add: active_count_def)
    show ?thesis
    proof (cases "receiver_waiting x c")
      case True
      then obtain rf i es where p: "pc c = PCollect rf i es" and i: "i < nfiles x"
        and e: "buf (results c) = []"
        by (auto simp: receiver_waiting_def split: mpc.splits)
      with st j GSend True have
        c': "c' = c\<lparr>gors := (gors c)[j := GExit], pc := collect_result rf i es r\<rparr>"
        by (simp add: gor_step_def)
      from act have "active_count c' + 1 = active_count c"
        by (simp add: c' active_count_def)
      with inv p e show ?thesis
        by (auto simp: cap_inv_def c' collect_result_def to_spawn_def split: option.splits)
    next
      case False
      with st j GSend obtain ch where ch: "chan_send (results c) r = Some ch"
        and c': "c' = c\<lparr>results := ch, gors := (gors c)[j := GExit]\<rparr>"
        by (auto simp: gor_step_def split: option.splits)
      from ch have "length (buf ch) = Suc (length (buf (results c)))" and "ccap ch = ccap (results c)"
        by (auto simp: chan_send_Some_iff)
      moreover from act have "active_count c' + 1 = active_count c"
        by (simp add: c' active_count_def)
      ultimately show ?thesis
        using inv not_get by (auto simp: cap_inv_def c' split: mpc.splits)
    qed
  next
    case GExit
    with st j show ?thesis by (simp add: gor_step_def)
  qed
qed

lemma cmf_step_cap_inv: "cmf_step x ch c = Some c' \<Longrightarrow> cap_inv x c \<Longrightarrow> cap_inv x c'"
  by (cases ch) (auto intro: main_step_cap_inv spawn_step_cap_inv gor_step_cap_inv)

lemma reach_cap_inv: "reach x s0 c \<Longrightarrow> cap_inv x c"
proof (induction rule: reach.induct)
  case init
  show ?case by (rule cap_inv_init)
next
  case (step c ch c')
  then show ?case by (blast intro: cmf_step_cap_inv)
qed

subsection \<open>Enabled steps\<close>

lemma live_le_active_count:
  "j < length (gors c) \<Longrightarrow> live (gors c ! j) \<le> active_count c"
  unfolding active_count_def by (rule member_le_sum_list) auto

lemma active_count_pos:
  assumes "0 < active_count c"
  obtains j where "j < length (gors c)" and "gors c ! j \<noteq> GExit"
proof -
  have "\<exists>g \<in> set (gors c). g \<noteq> GExit"
  proof (rule ccontr)
    assume "\<not> (\<exists>g \<in> set (gors c). g \<noteq> GExit)"
    then have "\<forall>g \<in> set (gors c). live g = 0" by auto
    then have "active_count c = 0"
      unfolding active_count_def by (induction "gors c" arbitrary: c) (auto simp: sum_list_eq_0_iff)
    with assms show False by simp
  qed
  then show ?thesis using that by (auto simp: in_set_conv_nth)
qed

lemma gor_create_enabled:
  "j < length (gors c) \<Longrightarrow> gors c ! j = GCreate p v \<Longrightarrow> gor_step x j n c \<noteq> None"
  by (simp add: gor_step_def split: prod.splits)

lemma gor_send_enabled:
  assumes "cap_inv x c" and "j < length (gors c)" and "gors c ! j = GSend r"
  shows "gor_step x j n c \<noteq> None"
proof -
  from assms(2,3) have "1 \<le> active_count c"
    using live_le_active_count [of j c] by simp
  with assms(1) have room: "length (buf (results c)) < ccap (results c)"
    by (simp add: cap_inv_def)
  show ?thesis
  proof (cases "receiver_waiting x c")
    case True
    then show ?thesis using assms(2,3)
      by (auto simp: gor_step_def receiver_waiting_def split: mpc.splits)
  next
    case False
    with room assms(2,3) show ?thesis
      by (simp add: gor_step_def chan_send_def)
  qed
qed

lemma live_gor_enabled:
  assumes "cap_inv x c" and "j < length (gors c)" and "gors c ! j \<noteq> GExit"
  shows "gor_step x j n c \<noteq> None"
  using assms gor_create_enabled gor_send_enabled by (cases "gors c ! j") blast+

text \<open>C3: a blob goroutine's send \<open>results <- r\<close> never blocks.  In every
  reachable configuration, whatever the calling goroutine is doing (also after it has
  returned early on a blob error), a goroutine about to send can take its step,
  because the channel's capacity \<open>len(files)\<close> leaves a free slot for every live
  goroutine.  So no goroutine leaks blocked on the channel.\<close>

theorem send_never_blocks:
  assumes "reach x s0 c" and "j < length (gors c)" and "gors c ! j = GSend r"
  shows "gor_step x j n c \<noteq> None"
  using reach_cap_inv [OF assms(1)] assms(2,3) by (rule gor_send_enabled)

lemma main_step_enabled:
  "pc c \<in> {PGetRef} \<union> range (\<lambda>(rf, es). PTree rf es) \<union> range (\<lambda>(rf, t). PCommit rf t)
     \<union> range (\<lambda>(rf, cm). PUpdate rf cm) \<Longrightarrow> main_step x n c \<noteq> None"
  by (auto simp: main_step_def split: prod.splits sum.splits)

lemma collect_enabled:
  assumes "cap_inv x c" and "pc c = PCollect rf i es"
  shows "\<exists>ch. cmf_step x ch c \<noteq> None"
proof (cases "i < nfiles x \<and> buf (results c) = []")
  case True
  with assms have "0 < active_count c"
    by (simp add: cap_inv_def)
  then obtain j where "j < length (gors c)" and "gors c ! j \<noteq> GExit"
    by (rule active_count_pos)
  with assms(1) have "gor_step x j Served c \<noteq> None"
    by (rule live_gor_enabled)
  then show ?thesis by (metis cmf_step.simps(3))
next
  case False
  with assms(2) have "main_step x Served c \<noteq> None"
    by (auto simp: main_step_def chan_recv_def split: list.splits)
  then show ?thesis by (metis cmf_step.simps(1))
qed

lemma unfinished_enabled:
  assumes "cap_inv x c" and "\<not> finished c"
  shows "\<exists>ch. cmf_step x ch c \<noteq> None"
proof (cases "pc c")
  case (PSpawn rf kvs)
  show ?thesis
  proof (cases kvs)
    case Nil
    with PSpawn have "main_step x Served c \<noteq> None" by (simp add: main_step_def)
    then show ?thesis by (metis cmf_step.simps(1))
  next
    case (Cons kv kvs')
    with PSpawn have "spawn_step 0 c \<noteq> None" by (simp add: spawn_step_def)
    then show ?thesis by (metis cmf_step.simps(2))
  qed
next
  case (PCollect rf i es)
  with assms(1) show ?thesis by (rule collect_enabled)
next
  case (PRet r)
  with assms(2) obtain g where "g \<in> set (gors c)" and "g \<noteq> GExit"
    by (auto simp: finished_def)
  then obtain j where "j < length (gors c)" and "gors c ! j \<noteq> GExit"
    by (auto simp: in_set_conv_nth)
  with assms(1) have "gor_step x j Served c \<noteq> None"
    by (rule live_gor_enabled)
  then show ?thesis by (metis cmf_step.simps(3))
qed (use main_step_enabled in \<open>(metis cmf_step.simps(1) UnCI insertI1 rangeI case_prod_conv)+\<close>)

text \<open>C4: no reachable configuration is stuck.  If no scheduler choice can make a
  step, then \<open>commitMultipleFiles\<close> has returned and every blob goroutine has
  exited: there is no deadlock and no goroutine is left behind.\<close>

theorem quiescent_finished:
  assumes "reach x s0 c" and "\<forall>ch. cmf_step x ch c = None"
  shows "finished c"
proof (rule ccontr)
  assume "\<not> finished c"
  with reach_cap_inv [OF assms(1)] obtain ch where "cmf_step x ch c \<noteq> None"
    using unfinished_enabled by blast
  with assms(2) show False by simp
qed

subsection \<open>Termination\<close>

lemma main_step_rank: "main_step x n c = Some c' \<Longrightarrow> rank x c' < rank x c"
  by (auto simp: main_step_def rank_def main_rank_def nfiles_def collect_result_def
      split: mpc.splits if_splits option.splits prod.splits sum.splits)

lemma spawn_step_rank: "spawn_step j c = Some c' \<Longrightarrow> rank x c' < rank x c"
  by (auto simp: spawn_step_def rank_def main_rank_def split: mpc.splits if_splits)

lemma gor_step_rank:
  assumes st: "gor_step x j n c = Some c'"
  shows "rank x c' < rank x c"
proof -
  from st have j: "j < length (gors c)"
    by (auto simp: gor_step_def split: if_splits)
  note upd = sum_list_map_update [OF j, of gor_rank]
  show ?thesis
  proof (cases "gors c ! j")
    case (GCreate p v)
    with st j upd [of "GSend (blob_call_result p (fst (api_call x n (create_blob_op (hsh x) v ''utf-8'') (srv c))))"]
    show ?thesis
      by (auto simp: gor_step_def rank_def split: prod.splits)
  next
    case (GSend r)
    with st j upd [of GExit] show ?thesis
      by (auto simp: gor_step_def rank_def main_rank_def receiver_waiting_def collect_result_def
          split: if_splits mpc.splits option.splits)
  next
    case GExit
    with st j show ?thesis by (simp add: gor_step_def)
  qed
qed

lemma cmf_step_rank: "cmf_step x ch c = Some c' \<Longrightarrow> rank x c' < rank x c"
  by (cases ch) (auto intro: main_step_rank spawn_step_rank gor_step_rank)

text \<open>The step relation, over all scheduler choices and network behaviours, is
  well-founded: no schedule runs forever.\<close>

lemma cmf_terminates: "wf {(c', c). \<exists>ch. cmf_step x ch c = Some c'}"
  by (rule wf_subset [OF wf_measure [of "rank x"]]) (auto dest: cmf_step_rank)

lemma run_rank: "run x chs c = Some c' \<Longrightarrow> rank x c' + length chs \<le> rank x c"
proof (induction chs arbitrary: c)
  case Nil
  then show ?case by simp
next
  case (Cons ch chs)
  then obtain c1 where st: "cmf_step x ch c = Some c1" and r: "run x chs c1 = Some c'"
    by (auto split: option.splits)
  from Cons.IH [OF r] cmf_step_rank [OF st] show ?case by simp
qed

text \<open>An execution from the call takes at most \<open>4 * len(files) + 8\<close> steps.\<close>

lemma run_length_bound:
  "run x chs (init_cfg s) = Some c \<Longrightarrow> length chs \<le> 4 * nfiles x + 8"
  using run_rank [of x chs "init_cfg s" c]
  by (simp add: rank_def init_cfg_def main_rank_def)

text \<open>From every reachable configuration, some schedule leads to a return of the
  function: the rank falls at every step, and a configuration that has not finished
  can always move.\<close>

lemma reach_to_ret: "reach x s0 c \<Longrightarrow> \<exists>c'. reach x s0 c' \<and> (\<exists>r. pc c' = PRet r)"
proof (induction "rank x c" arbitrary: c rule: less_induct)
  case less
  show ?case
  proof (cases "\<exists>r. pc c = PRet r")
    case True
    with less.prems show ?thesis by blast
  next
    case False
    then have "\<not> finished c" by (simp add: finished_def)
    from unfinished_enabled [OF reach_cap_inv [OF less.prems] this]
    obtain ch c1 where st: "cmf_step x ch c = Some c1" by blast
    from less.hyps [OF cmf_step_rank [OF st] reach.step [OF less.prems st]] show ?thesis .
  qed
qed

end
