(* ===== verification/CommitCorrect.thy ===== *)
theory CommitCorrect
  imports FanOut
begin

text \<open>
  What \<open>commitMultipleFiles\<close> does to the repository.  The invariant
  \<open>content_inv\<close> follows every file from the range loop through its goroutine, the
  channel and the collected entries into the tree and the commit: each result that
  reports no error names the blob of the file's content, and that blob is stored.
  With a collision-free hash no step loses a stored object, which gives the two main
  results: when the function returns \<open>nil\<close> the branch holds exactly the files, and
  at every moment of every execution the branch is either as it was or holds exactly
  the files (never a partial tree).  A frame theorem shows that nothing else of the
  server changes: no other repository, no other reference, no token.
\<close>

subsection \<open>The snapshot the function builds\<close>

definition refname :: "ctx \<Rightarrow> string" where
  "refname x = ''refs/heads/'' @ branch x"

definition repo_of :: "ctx \<Rightarrow> server \<Rightarrow> repo option" where
  "repo_of x s = fmlookup (repos s) (owner x, repo_name x)"

text \<open>Object \<open>ob\<close> is stored, under its hash, in the program's repository.\<close>

definition has_obj :: "ctx \<Rightarrow> server \<Rightarrow> gobject \<Rightarrow> bool" where
  "has_obj x s ob =
     (case repo_of x s of None \<Rightarrow> False | Some r \<Rightarrow> fmlookup (objects r) (hsh x ob) = Some ob)"

definition branch_ref :: "ctx \<Rightarrow> server \<Rightarrow> sha option" where
  "branch_ref x s = (case repo_of x s of None \<Rightarrow> None | Some r \<Rightarrow> fmlookup (refs r) (refname x))"

definition file_item :: "ctx \<Rightarrow> path \<times> content \<Rightarrow> string \<times> path \<times> sha" where
  "file_item x pv = (case pv of (p, v) \<Rightarrow> (''100644'', p, hsh x (GBlob v)))"

definition all_paths :: "ctx \<Rightarrow> path list" where
  "all_paths x = map fst (sorted_list_of_fmap (files x))"

text \<open>The tree and the commit that hold exactly the files.\<close>

definition files_tree :: "ctx \<Rightarrow> gobject" where
  "files_tree x = GTree (map (file_item x) (sorted_list_of_fmap (files x)))"

definition files_commit :: "ctx \<Rightarrow> gobject" where
  "files_commit x = GCommit (message x) (hsh x (files_tree x)) []"

definition blobs_stored :: "ctx \<Rightarrow> server \<Rightarrow> bool" where
  "blobs_stored x s = fmpred (\<lambda>p v. has_obj x s (GBlob v)) (files x)"

definition snapshot_stored :: "ctx \<Rightarrow> server \<Rightarrow> bool" where
  "snapshot_stored x s \<longleftrightarrow>
     blobs_stored x s \<and> has_obj x s (files_tree x) \<and> has_obj x s (files_commit x)"

subsection \<open>The content invariant\<close>

definition good_result :: "ctx \<Rightarrow> server \<Rightarrow> blob_result \<Rightarrow> bool" where
  "good_result x s r =
     (case fmlookup (files x) (br_path r) of
        None \<Rightarrow> False
      | Some v \<Rightarrow> (br_err r = None \<longrightarrow> br_sha r = hsh x (GBlob v) \<and> has_obj x s (GBlob v)))"

definition good_entry :: "ctx \<Rightarrow> server \<Rightarrow> tree_entry \<Rightarrow> bool" where
  "good_entry x s e =
     (case fmlookup (files x) (te_path e) of
        None \<Rightarrow> False
      | Some v \<Rightarrow> te_mode e = ''100644'' \<and> te_type e = ''blob'' \<and> te_sha e = hsh x (GBlob v) \<and>
                  has_obj x s (GBlob v))"

fun gor_ok :: "ctx \<Rightarrow> server \<Rightarrow> gor \<Rightarrow> bool" where
  "gor_ok x s (GCreate p v) = (fmlookup (files x) p = Some v)"
| "gor_ok x s (GSend r) = good_result x s r"
| "gor_ok x s GExit = True"

fun gor_path :: "gor \<Rightarrow> path list" where
  "gor_path (GCreate p v) = [p]"
| "gor_path (GSend r) = [br_path r]"
| "gor_path GExit = []"

definition live_paths :: "cfg \<Rightarrow> path list" where
  "live_paths c = concat (map gor_path (gors c)) @ map br_path (buf (results c))"

definition content_inv :: "ctx \<Rightarrow> cfg \<Rightarrow> bool" where
  "content_inv x c \<longleftrightarrow>
     list_all (gor_ok x (srv c)) (gors c) \<and> list_all (good_result x (srv c)) (buf (results c)) \<and>
     (case pc c of
        PGetRef \<Rightarrow> True
      | PSpawn rf kvs \<Rightarrow>
          ref_name rf = refname x \<and> set kvs \<subseteq> set (sorted_list_of_fmap (files x)) \<and>
          mset (map fst kvs) + mset (live_paths c) = mset (all_paths x)
      | PCollect rf i es \<Rightarrow>
          ref_name rf = refname x \<and> list_all (good_entry x (srv c)) es \<and>
          mset (live_paths c) + mset (map te_path es) = mset (all_paths x)
      | PTree rf es \<Rightarrow>
          ref_name rf = refname x \<and> list_all (good_entry x (srv c)) es \<and>
          mset (map te_path es) = mset (all_paths x)
      | PCommit rf t \<Rightarrow>
          ref_name rf = refname x \<and> tree_sha t = hsh x (files_tree x) \<and>
          blobs_stored x (srv c) \<and> has_obj x (srv c) (files_tree x)
      | PUpdate rf cm \<Rightarrow>
          ref_name rf = refname x \<and> commit_sha cm = hsh x (files_commit x) \<and>
          snapshot_stored x (srv c)
      | PRet r \<Rightarrow> True)"

text \<open>The branch is as it was at the call, or points to the commit of exactly the
  files, whose objects are all stored; after a \<open>nil\<close> return it is the latter.\<close>

definition atomic_inv :: "ctx \<Rightarrow> server \<Rightarrow> cfg \<Rightarrow> bool" where
  "atomic_inv x s0 c \<longleftrightarrow>
     (branch_ref x (srv c) = branch_ref x s0 \<or>
      branch_ref x (srv c) = Some (hsh x (files_commit x)) \<and> snapshot_stored x (srv c)) \<and>
     (pc c = PRet None \<longrightarrow>
      branch_ref x (srv c) = Some (hsh x (files_commit x)) \<and> snapshot_stored x (srv c))"

subsection \<open>Stored objects stay stored\<close>

lemma api_call_has_obj:
  assumes call: "api_call x n f s = (res, s')"
    and has: "has_obj x s ob"
    and keep: "\<And>r a r'. f r = Inr (a, r') \<Longrightarrow> fmlookup (objects r) (hsh x ob) = Some ob \<Longrightarrow>
                 fmlookup (objects r') (hsh x ob) = Some ob"
  shows "has_obj x s' ob"
proof -
  from call have "s' = s \<or> s' = snd (with_repo (token x) (owner x) (repo_name x) f s)"
    unfolding api_call_def by (rule net_call_state)
  then show ?thesis
  proof
    assume "s' = s"
    with has show ?thesis by simp
  next
    assume s': "s' = snd (with_repo (token x) (owner x) (repo_name x) f s)"
    from with_repo_state [of "token x" "owner x" "repo_name x" f s] s' has keep show ?thesis
      by (auto simp: has_obj_def repo_of_def)
  qed
qed

lemma ops_keep_objects:
  assumes "inj h" and "fmlookup (objects r) (h ob) = Some ob"
  shows "get_ref_op nm r = Inr (a1, r1) \<Longrightarrow> fmlookup (objects r1) (h ob) = Some ob"
    and "create_blob_op h v enc r = Inr (a2, r2) \<Longrightarrow> fmlookup (objects r2) (h ob) = Some ob"
    and "create_tree_op h b es r = Inr (a3, r3) \<Longrightarrow> fmlookup (objects r3) (h ob) = Some ob"
    and "create_commit_op h ow rp msg t ps r = Inr (a4, r4) \<Longrightarrow> fmlookup (objects r4) (h ob) = Some ob"
    and "update_ref_op rf force r = Inr (a5, r5) \<Longrightarrow> fmlookup (objects r5) (h ob) = Some ob"
  using assms
  by (auto dest!: get_ref_op_Inr create_blob_op_Inr create_tree_op_Inr create_commit_op_Inr
      update_ref_op_Inr intro: put_object_keeps)

lemma main_step_has_obj:
  assumes st: "main_step x n c = Some c'" and inj: "inj (hsh x)" and has: "has_obj x (srv c) ob"
  shows "has_obj x (srv c') ob"
proof (cases "pc c")
  case PGetRef
  with st obtain res where "api_call x n (get_ref_op (refname x)) (srv c) = (res, srv c')"
    by (auto simp: main_step_def refname_def split: prod.splits sum.splits)
  then show ?thesis using has by (rule api_call_has_obj) (auto intro: ops_keep_objects [OF inj])
next
  case (PTree rf es)
  with st obtain res where "api_call x n (create_tree_op (hsh x) '''' es) (srv c) = (res, srv c')"
    by (auto simp: main_step_def split: prod.splits sum.splits)
  then show ?thesis using has by (rule api_call_has_obj) (auto intro: ops_keep_objects [OF inj])
next
  case (PCommit rf t)
  with st obtain res where
    "api_call x n (create_commit_op (hsh x) (owner x) (repo_name x) (message x) (tree_sha t) []) (srv c)
       = (res, srv c')"
    by (auto simp: main_step_def split: prod.splits sum.splits)
  then show ?thesis using has by (rule api_call_has_obj) (auto intro: ops_keep_objects [OF inj])
next
  case (PUpdate rf cm)
  with st obtain res where
    "api_call x n (update_ref_op (rf\<lparr>ref_sha := commit_sha cm\<rparr>) True) (srv c) = (res, srv c')"
    by (auto simp: main_step_def split: prod.splits sum.splits)
  then show ?thesis using has by (rule api_call_has_obj) (auto intro: ops_keep_objects [OF inj])
qed (use st has in \<open>auto simp: main_step_def split: if_splits option.splits prod.splits\<close>)

lemma gor_step_has_obj:
  assumes st: "gor_step x j n c = Some c'" and inj: "inj (hsh x)" and has: "has_obj x (srv c) ob"
  shows "has_obj x (srv c') ob"
proof (cases "\<exists>p v. gors c ! j = GCreate p v")
  case True
  then obtain p v where g: "gors c ! j = GCreate p v" by blast
  with st obtain res where "api_call x n (create_blob_op (hsh x) v ''utf-8'') (srv c) = (res, srv c')"
    by (auto simp: gor_step_def split: if_splits prod.splits)
  then show ?thesis using has by (rule api_call_has_obj) (auto intro: ops_keep_objects [OF inj])
next
  case False
  with st have "srv c' = srv c"
    by (auto simp: gor_step_def split: if_splits gor.splits mpc.splits option.splits)
  with has show ?thesis by simp
qed

lemma cmf_step_has_obj:
  "cmf_step x ch c = Some c' \<Longrightarrow> inj (hsh x) \<Longrightarrow> has_obj x (srv c) ob \<Longrightarrow> has_obj x (srv c') ob"
  by (cases ch) (auto simp: spawn_step_def split: mpc.splits if_splits
      intro: main_step_has_obj gor_step_has_obj)

subsection \<open>Helper facts for the content invariant\<close>

lemma good_mono:
  assumes "\<And>ob. has_obj x s ob \<Longrightarrow> has_obj x s' ob"
  shows good_result_mono: "good_result x s r \<Longrightarrow> good_result x s' r"
    and good_entry_mono: "good_entry x s e \<Longrightarrow> good_entry x s' e"
    and gor_ok_mono: "gor_ok x s g \<Longrightarrow> gor_ok x s' g"
    and blobs_stored_mono: "blobs_stored x s \<Longrightarrow> blobs_stored x s'"
    and snapshot_stored_mono: "snapshot_stored x s \<Longrightarrow> snapshot_stored x s'"
  using assms
  by (cases g; auto simp: good_result_def good_entry_def blobs_stored_def snapshot_stored_def
        fmpred_iff split: option.splits)+

lemma content_inv_srv_mono:
  assumes "content_inv x c" and "\<And>ob. has_obj x (srv c) ob \<Longrightarrow> has_obj x s' ob"
  shows "content_inv x (c\<lparr>srv := s'\<rparr>)"
proof -
  note m = good_mono [of x "srv c" s', OF assms(2)]
  from assms(1) show ?thesis
    by (auto simp: content_inv_def live_paths_def list_all_iff intro: m assms(2) split: mpc.splits)
qed

lemma gor_paths_inactive:
  "active_count c = 0 \<Longrightarrow> concat (map gor_path (gors c)) = []"
proof -
  have "sum_list (map live gs) = 0 \<Longrightarrow> concat (map gor_path gs) = []" for gs
  proof (induction gs)
    case (Cons g gs)
    then show ?case by (cases g) auto
  qed simp
  then show "active_count c = 0 \<Longrightarrow> concat (map gor_path (gors c)) = []"
    by (simp add: active_count_def)
qed

lemma file_item_path [simp]: "fst (snd (file_item x pv)) = fst pv"
  by (cases pv) (simp add: file_item_def)

lemma good_entry_item:
  "good_entry x s e \<Longrightarrow> fmlookup (files x) (te_path e) = Some v \<Longrightarrow>
   entry_item e = file_item x (te_path e, v)"
  by (simp add: good_entry_def entry_item_def file_item_def)

text \<open>Entries that are good and cover every file exactly once build the canonical tree
  of the files, whatever their order.\<close>

lemma tree_items_files:
  assumes good: "list_all (good_entry x s) es"
    and paths: "mset (map te_path es) = mset (all_paths x)"
  shows "tree_items [] es = map (file_item x) (sorted_list_of_fmap (files x))"
proof -
  define g where "g p = file_item x (p, the (fmlookup (files x) p))" for p
  have items: "map entry_item es = map g (map te_path es)"
    using good by (induction es) (auto simp: g_def good_entry_def entry_item_def file_item_def
        split: option.splits)
  have ys: "map (file_item x) (sorted_list_of_fmap (files x)) = map g (all_paths x)"
    by (auto simp: all_paths_def g_def file_item_def intro!: map_cong)
  have "mset (map entry_item es) = mset (map g (map te_path es))"
    by (simp only: items)
  also have "\<dots> = image_mset g (mset (map te_path es))"
    by (rule mset_map)
  also have "\<dots> = image_mset g (mset (all_paths x))"
    by (simp only: paths)
  also have "\<dots> = mset (map (file_item x) (sorted_list_of_fmap (files x)))"
    by (simp only: ys mset_map)
  finally have "mset (map entry_item es) = mset (map (file_item x) (sorted_list_of_fmap (files x)))" .
  moreover have "inj_on (\<lambda>it. fst (snd it)) (set (map entry_item es))"
    by (auto simp: items inj_on_def g_def file_item_def)
  moreover have "sorted (map (\<lambda>it. fst (snd it)) (map (file_item x) (sorted_list_of_fmap (files x))))"
  proof -
    have "map (\<lambda>it. fst (snd it)) (map (file_item x) (sorted_list_of_fmap (files x)))
          = map fst (sorted_list_of_fmap (files x))"
      by (simp add: comp_def)
    then show ?thesis by (metis sorted_map_fst_sorted_list_of_fmap)
  qed
  ultimately show ?thesis
    by (simp add: tree_items_def sort_key_inj_key_eq)
qed

lemma entries_blobs_stored:
  assumes good: "list_all (good_entry x s) es"
    and paths: "mset (map te_path es) = mset (all_paths x)"
  shows "blobs_stored x s"
  unfolding blobs_stored_def fmpred_iff
proof (intro allI impI)
  fix p v
  assume pv: "fmlookup (files x) p = Some v"
  then have "(p, v) \<in> set (sorted_list_of_fmap (files x))"
    by simp
  then have "p \<in> set (all_paths x)"
    unfolding all_paths_def set_map by (rule rev_image_eqI) simp
  then have "p \<in> set (map te_path es)"
    using paths by (metis set_mset_mset)
  then obtain e where "e \<in> set es" and "te_path e = p" by auto
  with good pv show "has_obj x s (GBlob v)"
    by (auto simp: list_all_iff good_entry_def)
qed

lemma api_call_Inr:
  "api_call x n f s = (Inr a, s') \<Longrightarrow>
   \<exists>r r'. repo_of x s = Some r \<and> f r = Inr (a, r') \<and>
     s' = s\<lparr>repos := fmupd (owner x, repo_name x) r' (repos s)\<rparr>"
  unfolding api_call_def repo_of_def by (drule net_call_Inr) (rule with_repo_Inr)

lemma has_obj_put:
  "repo_of x s = Some r \<Longrightarrow>
   has_obj x (s\<lparr>repos := fmupd (owner x, repo_name x) (put_object (hsh x) ob r) (repos s)\<rparr>) ob"
  by (simp add: has_obj_def repo_of_def put_object_stores)

subsection \<open>Every step keeps the content invariant\<close>

lemma spawn_step_content_inv:
  assumes st: "spawn_step j c = Some c'" and inv: "content_inv x c"
  shows "content_inv x c'"
proof -
  from st obtain rf kvs where p: "pc c = PSpawn rf kvs" and j: "j < length kvs"
    and c': "c' = c\<lparr>gors := gors c @ [GCreate (fst (kvs ! j)) (snd (kvs ! j))],
                     pc := PSpawn rf (del_at j kvs)\<rparr>"
    by (auto simp: spawn_step_def split: mpc.splits if_splits)
  have "image_mset fst (mset (del_at j kvs) + {#kvs ! j#}) = image_mset fst (mset kvs)"
    using mset_del_at [OF j] by simp
  then have m: "mset (map fst (del_at j kvs)) + {#fst (kvs ! j)#} = mset (map fst kvs)"
    by simp
  from j have "kvs ! j \<in> set kvs" by simp
  with inv p have "kvs ! j \<in> set (sorted_list_of_fmap (files x))"
    by (auto simp: content_inv_def)
  then have look: "fmlookup (files x) (fst (kvs ! j)) = Some (snd (kvs ! j))"
    by (metis mem_sorted_list_of_fmap prod.collapse)
  have "mset (map fst (del_at j kvs)) + mset (live_paths c') = mset (map fst kvs) + mset (live_paths c)"
    using m by (simp add: c' live_paths_def ac_simps)
  with inv p set_del_at_subset [of j kvs] look show ?thesis
    by (auto simp: content_inv_def c')
qed

lemma live_paths_srv [simp]: "live_paths (c\<lparr>srv := s\<rparr>) = live_paths c"
  by (simp add: live_paths_def)

lemma live_paths_pc [simp]: "live_paths (c\<lparr>pc := p\<rparr>) = live_paths c"
  by (simp add: live_paths_def)

lemma gors_paths_update:
  "j < length (gors c) \<Longrightarrow>
   mset (concat (map gor_path ((gors c)[j := g]))) + mset (gor_path (gors c ! j)) =
   mset (concat (map gor_path (gors c))) + mset (gor_path g)"
  by (rule mset_concat_map_update)

text \<open>One iteration of the collect loop on a received result \<open>r\<close>, whether it was
  taken from the buffer or handed over by its goroutine.\<close>

lemma content_inv_collect:
  assumes inv: "content_inv x c" and p: "pc c = PCollect rf i es"
    and r: "good_result x (srv c) r"
    and paths: "mset (live_paths c') + {#br_path r#} = mset (live_paths c)"
    and same: "srv c' = srv c" and gs: "list_all (gor_ok x (srv c)) (gors c')"
    and bs: "list_all (good_result x (srv c)) (buf (results c'))"
    and p': "pc c' = collect_result rf i es r"
  shows "content_inv x c'"
proof (cases "br_err r")
  case None
  then have p'': "pc c' = PCollect rf (Suc i) (es @ [blob_entry r])"
    by (simp add: p' collect_result_def)
  from r None have "good_entry x (srv c) (blob_entry r)"
    by (auto simp: good_result_def good_entry_def blob_entry_def split: option.splits)
  moreover have "mset (live_paths c') + mset (map te_path (es @ [blob_entry r])) =
                 mset (live_paths c) + mset (map te_path es)"
    using paths by (simp add: blob_entry_def ac_simps)
  moreover from inv p have "mset (live_paths c) + mset (map te_path es) = mset (all_paths x)"
    by (simp add: content_inv_def)
  ultimately show ?thesis
    using inv p same gs bs by (simp only: content_inv_def p'' mpc.case list_all_append) simp
next
  case (Some e)
  then show ?thesis
    using same gs bs by (simp add: content_inv_def p' collect_result_def)
qed

lemma gor_step_content_inv:
  assumes st: "gor_step x j n c = Some c'" and inj: "inj (hsh x)"
    and inv: "content_inv x c"
  shows "content_inv x c'"
proof -
  from st have j: "j < length (gors c)"
    by (auto simp: gor_step_def split: if_splits)
  from inv j have gj: "gor_ok x (srv c) (gors c ! j)"
    by (simp add: content_inv_def list_all_length)
  note upd = gors_paths_update [OF j]
  show ?thesis
  proof (cases "gors c ! j")
    case (GCreate p v)
    with st j obtain res s' where call: "api_call x n (create_blob_op (hsh x) v ''utf-8'') (srv c) = (res, s')"
      and c': "c' = c\<lparr>srv := s', gors := (gors c)[j := GSend (blob_call_result p res)]\<rparr>"
      by (auto simp: gor_step_def split: prod.splits)
    have mono: "has_obj x (srv c) ob \<Longrightarrow> has_obj x s' ob" for ob
      using gor_step_has_obj [OF st inj] by (simp add: c')
    have c1: "content_inv x (c\<lparr>srv := s'\<rparr>)"
      using inv mono by (rule content_inv_srv_mono)
    from gj GCreate have look: "fmlookup (files x) p = Some v" by simp
    have new: "good_result x s' (blob_call_result p res)"
    proof (cases res)
      case (Inl e)
      with look show ?thesis by (simp add: good_result_def blob_call_result_def)
    next
      case (Inr a)
      with call obtain r r' where "repo_of x (srv c) = Some r"
        and "create_blob_op (hsh x) v ''utf-8'' r = Inr (a, r')"
        and "s' = (srv c)\<lparr>repos := fmupd (owner x, repo_name x) r' (repos (srv c))\<rparr>"
        by (blast dest: api_call_Inr)
      with look Inr show ?thesis
        by (auto simp: good_result_def blob_call_result_def has_obj_put dest!: create_blob_op_Inr)
    qed
    from upd [of "GSend (blob_call_result p res)"] GCreate
    have "mset (live_paths c') = mset (live_paths c)"
      by (simp add: c' live_paths_def blob_call_result_def split: sum.splits)
    with c1 new show ?thesis
      by (auto simp: content_inv_def c' list_all_update split: mpc.splits)
  next
    case (GSend r)
    from gj GSend have r: "good_result x (srv c) r" by simp
    from inv have gs: "list_all (gor_ok x (srv c)) ((gors c)[j := GExit])"
      by (simp add: content_inv_def list_all_update)
    from upd [of GExit] GSend
    have up: "mset (concat (map gor_path ((gors c)[j := GExit]))) + {#br_path r#} =
              mset (concat (map gor_path (gors c)))"
      by simp
    show ?thesis
    proof (cases "receiver_waiting x c")
      case True
      then obtain rf i es where p: "pc c = PCollect rf i es"
        by (auto simp: receiver_waiting_def split: mpc.splits)
      with st j GSend True have
        c': "c' = c\<lparr>gors := (gors c)[j := GExit], pc := collect_result rf i es r\<rparr>"
        by (simp add: gor_step_def)
      show ?thesis
        by (rule content_inv_collect [OF inv p r])
          (use up inv gs in \<open>simp_all add: c' live_paths_def content_inv_def ac_simps\<close>)
    next
      case False
      with st j GSend obtain ch where ch: "chan_send (results c) r = Some ch"
        and c': "c' = c\<lparr>results := ch, gors := (gors c)[j := GExit]\<rparr>"
        by (auto simp: gor_step_def split: option.splits)
      from ch have b: "buf ch = buf (results c) @ [r]"
        by (auto simp: chan_send_Some_iff)
      have "mset (live_paths c') = mset (live_paths c)"
        using up by (simp add: c' live_paths_def b ac_simps)
      with inv gs r show ?thesis
        by (auto simp: content_inv_def c' b split: mpc.splits)
    qed
  next
    case GExit
    with st j show ?thesis by (simp add: gor_step_def)
  qed
qed


lemma content_inv_ret:
  "content_inv x (c\<lparr>srv := s\<rparr>) \<Longrightarrow> content_inv x (c\<lparr>srv := s, pc := PRet r\<rparr>)"
  by (simp add: content_inv_def)

lemma main_getref_content_inv:
  assumes st: "main_step x n c = Some c'" and p: "pc c = PGetRef"
    and cap: "cap_inv x c" and inv: "content_inv x c"
    and mono: "\<And>ob. has_obj x (srv c) ob \<Longrightarrow> has_obj x (srv c') ob"
  shows "content_inv x c'"
proof -
  from cap p have nogor: "gors c = []" by (simp add: cap_inv_def)
  from inv mono have c1: "content_inv x (c\<lparr>srv := srv c'\<rparr>)" by (rule content_inv_srv_mono)
  obtain res where call: "api_call x n (get_ref_op (refname x)) (srv c) = (res, srv c')"
    using st p by (auto simp: main_step_def refname_def split: prod.splits sum.splits)
  show ?thesis
  proof (cases res)
    case (Inl e)
    with st p call have c': "c' = c\<lparr>srv := srv c', pc := PRet (Some (ErrWrap ''GetRef: '' e))\<rparr>"
      by (auto simp: main_step_def refname_def)
    show ?thesis by (subst c') (rule content_inv_ret [OF c1])
  next
    case (Inr rf)
    with call have nm: "ref_name rf = refname x"
      by (auto dest!: api_call_Inr get_ref_op_Inr)
    from st p call Inr have
      c': "c' = c\<lparr>srv := srv c', results := make_chan (nfiles x),
                  pc := PSpawn rf (sorted_list_of_fmap (files x))\<rparr>"
      by (auto simp: main_step_def refname_def)
    have "content_inv x (c\<lparr>srv := srv c', results := make_chan (nfiles x),
                  pc := PSpawn rf (sorted_list_of_fmap (files x))\<rparr>)"
      using nm nogor by (simp add: content_inv_def live_paths_def all_paths_def)
    then show ?thesis by (subst c')
  qed
qed

lemma main_collect_content_inv:
  assumes st: "main_step x n c = Some c'" and p: "pc c = PCollect rf i es"
    and cap: "cap_inv x c" and inv: "content_inv x c"
  shows "content_inv x c'"
proof (cases "i < nfiles x")
  case True
  with st p obtain r xs where b: "buf (results c) = r # xs"
    and c': "c' = c\<lparr>results := (results c)\<lparr>buf := xs\<rparr>, pc := collect_result rf i es r\<rparr>"
    by (auto simp: main_step_def chan_recv_def split: list.splits)
  from inv b have r: "good_result x (srv c) r" by (simp add: content_inv_def)
  show ?thesis
    by (rule content_inv_collect [OF inv p r])
      (use inv b in \<open>simp_all add: c' live_paths_def content_inv_def ac_simps\<close>)
next
  case False
  with st p have c': "c' = c\<lparr>pc := PTree rf es\<rparr>"
    by (simp add: main_step_def)
  from cap p False have "active_count c = 0" and "length (buf (results c)) = 0"
    by (auto simp: cap_inv_def to_spawn_def simp del: length_0_conv)
  then have "live_paths c = []"
    by (simp add: live_paths_def gor_paths_inactive del: length_0_conv) simp
  with inv p show ?thesis
    by (simp add: content_inv_def c')
qed

lemma main_tree_content_inv:
  assumes st: "main_step x n c = Some c'" and p: "pc c = PTree rf es"
    and inv: "content_inv x c"
    and mono: "\<And>ob. has_obj x (srv c) ob \<Longrightarrow> has_obj x (srv c') ob"
  shows "content_inv x c'"
proof -
  from inv mono have c1: "content_inv x (c\<lparr>srv := srv c'\<rparr>)" by (rule content_inv_srv_mono)
  obtain res where call: "api_call x n (create_tree_op (hsh x) '''' es) (srv c) = (res, srv c')"
    using st p by (auto simp: main_step_def split: prod.splits sum.splits)
  show ?thesis
  proof (cases res)
    case (Inl e)
    with st p call have c': "c' = c\<lparr>srv := srv c', pc := PRet (Some (ErrWrap ''CreateTree: '' e))\<rparr>"
      by (auto simp: main_step_def)
    show ?thesis by (subst c') (rule content_inv_ret [OF c1])
  next
    case (Inr t)
    with st p call have c'eq: "c' = c\<lparr>srv := srv c', pc := PCommit rf t\<rparr>"
      by (auto simp: main_step_def)
    have p': "pc c' = PCommit rf t" and same: "gors c' = gors c" "results c' = results c"
      by (subst c'eq, simp)+
    from inv p have good: "list_all (good_entry x (srv c)) es"
      and paths: "mset (map te_path es) = mset (all_paths x)" and nm: "ref_name rf = refname x"
      by (simp_all add: content_inv_def)
    from call Inr obtain r r' where r: "repo_of x (srv c) = Some r"
      and op: "create_tree_op (hsh x) '''' es r = Inr (t, r')"
      and s': "srv c' = (srv c)\<lparr>repos := fmupd (owner x, repo_name x) r' (repos (srv c))\<rparr>"
      by (blast dest: api_call_Inr)
    from op have "tree_sha t = hsh x (files_tree x) \<and> r' = put_object (hsh x) (files_tree x) r"
      by (auto simp: base_items_def files_tree_def tree_items_files [OF good paths]
          dest!: create_tree_op_Inr)
    with r s' have t: "tree_sha t = hsh x (files_tree x)" and "has_obj x (srv c') (files_tree x)"
      by (simp_all add: has_obj_put)
    moreover have "blobs_stored x (srv c')"
      by (rule blobs_stored_mono [OF mono entries_blobs_stored [OF good paths]])
    ultimately show ?thesis
      using c1 nm by (simp add: content_inv_def p' same)
  qed
qed

lemma main_commit_content_inv:
  assumes st: "main_step x n c = Some c'" and p: "pc c = PCommit rf t"
    and inv: "content_inv x c"
    and mono: "\<And>ob. has_obj x (srv c) ob \<Longrightarrow> has_obj x (srv c') ob"
  shows "content_inv x c'"
proof -
  from inv mono have c1: "content_inv x (c\<lparr>srv := srv c'\<rparr>)" by (rule content_inv_srv_mono)
  obtain res where call:
    "api_call x n (create_commit_op (hsh x) (owner x) (repo_name x) (message x) (tree_sha t) []) (srv c)
       = (res, srv c')"
    using st p by (auto simp: main_step_def split: prod.splits sum.splits)
  show ?thesis
  proof (cases res)
    case (Inl e)
    with st p call have c': "c' = c\<lparr>srv := srv c', pc := PRet (Some (ErrWrap ''CreateCommit: '' e))\<rparr>"
      by (auto simp: main_step_def)
    show ?thesis by (subst c') (rule content_inv_ret [OF c1])
  next
    case (Inr cm)
    with st p call have c'eq: "c' = c\<lparr>srv := srv c', pc := PUpdate rf cm\<rparr>"
      by (auto simp: main_step_def)
    have p': "pc c' = PUpdate rf cm" and same: "gors c' = gors c" "results c' = results c"
      by (subst c'eq, simp)+
    from inv p have t: "tree_sha t = hsh x (files_tree x)" and nm: "ref_name rf = refname x"
      and stored: "blobs_stored x (srv c)" "has_obj x (srv c) (files_tree x)"
      by (simp_all add: content_inv_def)
    from call Inr obtain r r' where r: "repo_of x (srv c) = Some r"
      and op: "create_commit_op (hsh x) (owner x) (repo_name x) (message x) (tree_sha t) [] r = Inr (cm, r')"
      and s': "srv c' = (srv c)\<lparr>repos := fmupd (owner x, repo_name x) r' (repos (srv c))\<rparr>"
      by (blast dest: api_call_Inr)
    from op t have "commit_sha cm = hsh x (files_commit x) \<and> r' = put_object (hsh x) (files_commit x) r"
      by (auto simp: files_commit_def dest!: create_commit_op_Inr)
    with r s' have "commit_sha cm = hsh x (files_commit x)" and "has_obj x (srv c') (files_commit x)"
      by (simp_all add: has_obj_put)
    moreover from stored mono have "blobs_stored x (srv c')" and "has_obj x (srv c') (files_tree x)"
      by (auto intro: blobs_stored_mono)
    ultimately show ?thesis
      using c1 nm by (simp add: content_inv_def snapshot_stored_def p' same)
  qed
qed

lemma main_step_content_inv:
  assumes st: "main_step x n c = Some c'" and inj: "inj (hsh x)"
    and cap: "cap_inv x c" and inv: "content_inv x c"
  shows "content_inv x c'"
proof -
  have mono: "has_obj x (srv c) ob \<Longrightarrow> has_obj x (srv c') ob" for ob
    using main_step_has_obj [OF st inj] .
  show ?thesis
  proof (cases "pc c")
    case PGetRef
    from st this cap inv mono show ?thesis by (rule main_getref_content_inv)
  next
    case (PSpawn rf kvs)
    with st inv show ?thesis
      by (auto simp: main_step_def content_inv_def split: if_splits)
  next
    case (PCollect rf i es)
    from st this cap inv show ?thesis by (rule main_collect_content_inv)
  next
    case (PTree rf es)
    from st this inv mono show ?thesis by (rule main_tree_content_inv)
  next
    case (PCommit rf t)
    from st this inv mono show ?thesis by (rule main_commit_content_inv)
  next
    case (PUpdate rf cm)
    have c1: "content_inv x (c\<lparr>srv := srv c'\<rparr>)"
      using inv mono by (rule content_inv_srv_mono)
    from st PUpdate have "\<exists>r. pc c' = PRet r"
      by (auto simp: main_step_def split: prod.splits sum.splits)
    moreover from st PUpdate have "gors c' = gors c" and "results c' = results c"
      by (auto simp: main_step_def split: prod.splits sum.splits)
    ultimately show ?thesis
      using c1 by (auto simp: content_inv_def)
  next
    case (PRet r)
    with st show ?thesis by (simp add: main_step_def)
  qed
qed

lemma cmf_step_content_inv:
  "cmf_step x ch c = Some c' \<Longrightarrow> inj (hsh x) \<Longrightarrow> cap_inv x c \<Longrightarrow> content_inv x c \<Longrightarrow>
   content_inv x c'"
  by (cases ch) (auto intro: main_step_content_inv spawn_step_content_inv gor_step_content_inv)

lemma reach_content_inv: "reach x s0 c \<Longrightarrow> inj (hsh x) \<Longrightarrow> content_inv x c"
proof (induction rule: reach.induct)
  case init
  show ?case by (simp add: content_inv_def init_cfg_def)
next
  case (step c ch c')
  from step.hyps(1) have "cap_inv x c" by (rule reach_cap_inv)
  from cmf_step_content_inv [OF step.hyps(2) step.prems this step.IH [OF step.prems]]
  show ?case .
qed


subsection \<open>The branch is replaced atomically\<close>

lemma snapshot_read_branch:
  assumes ref: "branch_ref x s = Some (hsh x (files_commit x))" and st: "snapshot_stored x s"
  shows "read_branch s (owner x) (repo_name x) (branch x) = Some (sorted_list_of_fmap (files x))"
proof -
  from ref obtain r where r: "repo_of x s = Some r"
    and rf: "fmlookup (refs r) (refname x) = Some (hsh x (files_commit x))"
    by (auto simp: branch_ref_def split: option.splits)
  from st r have c: "fmlookup (objects r) (hsh x (files_commit x)) = Some (files_commit x)"
    and t: "fmlookup (objects r) (hsh x (files_tree x)) = Some (files_tree x)"
    and b: "\<And>p v. fmlookup (files x) p = Some v \<Longrightarrow>
               fmlookup (objects r) (hsh x (GBlob v)) = Some (GBlob v)"
    by (auto simp: snapshot_stored_def blobs_stored_def has_obj_def fmpred_iff)
  have "those (map (\<lambda>(m, p, s). case fmlookup (objects r) s of Some (GBlob v) \<Rightarrow> Some (p, v) | _ \<Rightarrow> None)
           (map (file_item x) (sorted_list_of_fmap (files x)))) = Some (sorted_list_of_fmap (files x))"
    unfolding map_map
    by (rule those_map_Some) (auto simp: file_item_def b)
  with r rf c t show ?thesis
    by (simp add: read_branch_def read_tree_def repo_of_def refname_def files_commit_def files_tree_def)
qed

lemma api_call_branch_ref:
  assumes call: "api_call x n f s = (res, s')"
    and same: "\<And>r a r'. f r = Inr (a, r') \<Longrightarrow> refs r' = refs r"
  shows "branch_ref x s' = branch_ref x s"
proof -
  from call have "s' = s \<or> s' = snd (with_repo (token x) (owner x) (repo_name x) f s)"
    unfolding api_call_def by (rule net_call_state)
  then show ?thesis
    using with_repo_state [of "token x" "owner x" "repo_name x" f s] same
    by (auto simp: branch_ref_def repo_of_def)
qed

lemma ops_keep_refs:
  shows "get_ref_op nm r = Inr (a1, r1) \<Longrightarrow> refs r1 = refs r"
    and "create_blob_op h v enc r = Inr (a2, r2) \<Longrightarrow> refs r2 = refs r"
    and "create_tree_op h b es r = Inr (a3, r3) \<Longrightarrow> refs r3 = refs r"
    and "create_commit_op h ow rp msg t ps r = Inr (a4, r4) \<Longrightarrow> refs r4 = refs r"
  by (auto dest!: get_ref_op_Inr create_blob_op_Inr create_tree_op_Inr create_commit_op_Inr)

text \<open>Only the \<open>UpdateRef\<close> call moves the branch.\<close>

lemma step_branch_ref_same:
  assumes st: "cmf_step x ch c = Some c'" and notupd: "\<And>n rf cm. ch = SMain n \<Longrightarrow> pc c \<noteq> PUpdate rf cm"
  shows "branch_ref x (srv c') = branch_ref x (srv c)"
proof (cases ch)
  case (SMain n)
  with st have m: "main_step x n c = Some c'" by simp
  show ?thesis
  proof (cases "pc c")
    case PGetRef
    with m obtain res where "api_call x n (get_ref_op (refname x)) (srv c) = (res, srv c')"
      by (auto simp: main_step_def refname_def split: prod.splits sum.splits)
    then show ?thesis by (rule api_call_branch_ref) (rule ops_keep_refs)
  next
    case (PTree rf es)
    with m obtain res where "api_call x n (create_tree_op (hsh x) '''' es) (srv c) = (res, srv c')"
      by (auto simp: main_step_def split: prod.splits sum.splits)
    then show ?thesis by (rule api_call_branch_ref) (rule ops_keep_refs)
  next
    case (PCommit rf t)
    with m obtain res where
      "api_call x n (create_commit_op (hsh x) (owner x) (repo_name x) (message x) (tree_sha t) []) (srv c)
         = (res, srv c')"
      by (auto simp: main_step_def split: prod.splits sum.splits)
    then show ?thesis by (rule api_call_branch_ref) (rule ops_keep_refs)
  qed (use m notupd SMain in \<open>auto simp: main_step_def split: if_splits option.splits prod.splits\<close>)
next
  case (SSpawn j)
  with st show ?thesis by (auto simp: spawn_step_def split: mpc.splits if_splits)
next
  case (SGor j n)
  with st have g: "gor_step x j n c = Some c'" by simp
  show ?thesis
  proof (cases "\<exists>p v. gors c ! j = GCreate p v")
    case True
    then obtain p v where "gors c ! j = GCreate p v" by blast
    with g obtain res where "api_call x n (create_blob_op (hsh x) v ''utf-8'') (srv c) = (res, srv c')"
      by (auto simp: gor_step_def split: if_splits prod.splits)
    then show ?thesis by (rule api_call_branch_ref) (rule ops_keep_refs)
  next
    case False
    with g show ?thesis
      by (auto simp: gor_step_def split: if_splits gor.splits mpc.splits option.splits)
  qed
qed


lemma update_step_branch_ref:
  assumes m: "main_step x n c = Some c'" and p: "pc c = PUpdate rf cm"
    and nm: "ref_name rf = refname x"
  shows "branch_ref x (srv c') = branch_ref x (srv c) \<or> branch_ref x (srv c') = Some (commit_sha cm)"
    and "pc c' = PRet None \<Longrightarrow> branch_ref x (srv c') = Some (commit_sha cm)"
proof -
  let ?rf = "rf\<lparr>ref_sha := commit_sha cm\<rparr>"
  obtain res where call: "api_call x n (update_ref_op ?rf True) (srv c) = (res, srv c')"
    using m p by (auto simp: main_step_def split: prod.splits sum.splits)
  have upd: "update_ref_op ?rf True r = Inr (a, r') \<Longrightarrow>
             fmlookup (refs r') (refname x) = Some (commit_sha cm)" for r a r'
    using nm by (auto dest!: update_ref_op_Inr)
  from call have "srv c' = srv c \<or> srv c' = snd (with_repo (token x) (owner x) (repo_name x)
                                                     (update_ref_op ?rf True) (srv c))"
    unfolding api_call_def by (rule net_call_state)
  then show "branch_ref x (srv c') = branch_ref x (srv c) \<or> branch_ref x (srv c') = Some (commit_sha cm)"
    using with_repo_state [of "token x" "owner x" "repo_name x" "update_ref_op ?rf True" "srv c"] upd
    by (auto simp: branch_ref_def repo_of_def)
  assume "pc c' = PRet None"
  with m p call obtain a where "res = Inr a"
    by (cases res) (auto simp: main_step_def dest: arg_cong [where f = pc])
  with call upd show "branch_ref x (srv c') = Some (commit_sha cm)"
    by (auto simp: branch_ref_def repo_of_def dest!: api_call_Inr)
qed

lemma ret_nil_from_update:
  assumes st: "cmf_step x ch c = Some c'" and r: "pc c' = PRet None"
  shows "pc c = PRet None \<or> (\<exists>n rf cm. ch = SMain n \<and> pc c = PUpdate rf cm)"
  using assms
  by (cases ch) (auto simp: main_step_def spawn_step_def gor_step_def collect_result_def
      split: mpc.splits prod.splits sum.splits if_splits option.splits gor.splits)

lemma cmf_step_atomic_inv:
  assumes st: "cmf_step x ch c = Some c'" and inj: "inj (hsh x)"
    and inv: "content_inv x c" and at: "atomic_inv x s0 c"
  shows "atomic_inv x s0 c'"
proof -
  have mono: "has_obj x (srv c) ob \<Longrightarrow> has_obj x (srv c') ob" for ob
    using cmf_step_has_obj [OF st inj] .
  show ?thesis
  proof (cases "\<exists>n rf cm. ch = SMain n \<and> pc c = PUpdate rf cm")
    case True
    then obtain n rf cm where ch: "ch = SMain n" and p: "pc c = PUpdate rf cm" by blast
    from st ch have m: "main_step x n c = Some c'" by simp
    from inv p have nm: "ref_name rf = refname x" and cm: "commit_sha cm = hsh x (files_commit x)"
      and snap: "snapshot_stored x (srv c)"
      by (simp_all add: content_inv_def)
    from snap mono have snap': "snapshot_stored x (srv c')"
      by (rule snapshot_stored_mono [rotated])
    from update_step_branch_ref [OF m p nm] at snap' cm show ?thesis
      by (auto simp: atomic_inv_def)
  next
    case False
    then have same: "branch_ref x (srv c') = branch_ref x (srv c)"
      using step_branch_ref_same [OF st] by blast
    from False ret_nil_from_update [OF st] have "pc c' = PRet None \<Longrightarrow> pc c = PRet None"
      by blast
    with at same mono show ?thesis
      by (auto simp: atomic_inv_def intro: snapshot_stored_mono)
  qed
qed

lemma reach_atomic_inv: "reach x s0 c \<Longrightarrow> inj (hsh x) \<Longrightarrow> atomic_inv x s0 c"
proof (induction rule: reach.induct)
  case init
  show ?case by (simp add: atomic_inv_def init_cfg_def)
next
  case (step c ch c')
  from step.hyps(1) step.prems have "content_inv x c" by (rule reach_content_inv)
  from cmf_step_atomic_inv [OF step.hyps(2) step.prems this step.IH [OF step.prems]]
  show ?case .
qed

text \<open>C1: when \<open>commitMultipleFiles\<close> returns \<open>nil\<close>, the branch holds exactly the
  given files: reading the tree of the commit the branch points to gives every
  (path, content) pair of \<open>files\<close> and nothing else, whatever the order in which the
  goroutines delivered their blobs.  The hash function is assumed collision-free.\<close>

theorem commit_success_branch:
  assumes "reach x s0 c" and "inj (hsh x)" and "pc c = PRet None"
  shows "read_branch (srv c) (owner x) (repo_name x) (branch x) = Some (sorted_list_of_fmap (files x))"
  using reach_atomic_inv [OF assms(1,2)] assms(3)
  by (auto simp: atomic_inv_def intro: snapshot_read_branch)

text \<open>C2: the branch is replaced atomically.  In every reachable configuration, also
  after an error and while leftover goroutines still run, the branch either still
  points where it pointed at the call, or it holds exactly the given files: no
  execution leaves it at a partial tree.\<close>

theorem branch_atomic:
  assumes "reach x s0 c" and "inj (hsh x)"
  shows "branch_ref x (srv c) = branch_ref x s0 \<or>
         read_branch (srv c) (owner x) (repo_name x) (branch x) = Some (sorted_list_of_fmap (files x))"
  using reach_atomic_inv [OF assms] by (auto simp: atomic_inv_def intro: snapshot_read_branch)

text \<open>C22: a \<open>nil\<close> return replaces the branch's history, as the spec says: the branch
  then points to a single new commit with the given message, the tree of exactly the
  given files and no parent (\<open>CreateCommit\<close> without parents, \<open>UpdateRef\<close> with
  \<open>force\<close>); the hash function is assumed collision-free.\<close>

theorem history_replaced:
  assumes "reach x s0 c" and "inj (hsh x)" and "pc c = PRet None"
  shows "\<exists>r sha. repo_of x (srv c) = Some r \<and> fmlookup (refs r) (refname x) = Some sha \<and>
    fmlookup (objects r) sha = Some (GCommit (message x) (hsh x (files_tree x)) [])"
proof -
  from reach_atomic_inv [OF assms(1,2)] assms(3)
  have "branch_ref x (srv c) = Some (hsh x (files_commit x))" and "has_obj x (srv c) (files_commit x)"
    by (simp_all add: atomic_inv_def snapshot_stored_def)
  then show ?thesis
    by (auto simp: branch_ref_def has_obj_def files_commit_def split: option.splits)
qed

end
