(* ===== verification/CommitFrame.thy ===== *)
theory CommitFrame
  imports CommitCorrect
begin

text \<open>
  What \<open>commitMultipleFiles\<close> leaves alone, and the errors it returns.  These facts
  hold for any hash function: the server's tokens, every other repository and every
  other reference of the program's repository are never changed by any execution,
  and every error the function returns is the API client's error wrapped by
  \<open>fmt.Errorf\<close> with one of the five step prefixes; an error from any step but
  \<open>UpdateRef\<close> leaves the branch where it was.
\<close>

definition pc_ref :: "mpc \<Rightarrow> git_ref option" where
  "pc_ref p =
     (case p of
        PSpawn rf kvs \<Rightarrow> Some rf
      | PCollect rf i es \<Rightarrow> Some rf
      | PTree rf es \<Rightarrow> Some rf
      | PCommit rf t \<Rightarrow> Some rf
      | PUpdate rf cm \<Rightarrow> Some rf
      | _ \<Rightarrow> None)"

text \<open>The reference the function holds is the one it asked \<open>GetRef\<close> for.\<close>

definition ref_ok :: "ctx \<Rightarrow> cfg \<Rightarrow> bool" where
  "ref_ok x c = pred_option (\<lambda>rf. ref_name rf = refname x) (pc_ref (pc c))"

text \<open>Server \<open>s\<close> agrees with \<open>s0\<close> everywhere but the program's branch.\<close>

definition frame_ok :: "ctx \<Rightarrow> server \<Rightarrow> server \<Rightarrow> bool" where
  "frame_ok x s0 s \<longleftrightarrow>
     tokens s = tokens s0 \<and>
     fmdrop (owner x, repo_name x) (repos s) = fmdrop (owner x, repo_name x) (repos s0) \<and>
     map_option (\<lambda>r. fmdrop (refname x) (refs r)) (repo_of x s) =
       map_option (\<lambda>r. fmdrop (refname x) (refs r)) (repo_of x s0)"

text \<open>The prefixes \<open>commitMultipleFiles\<close> puts on an error with \<open>fmt.Errorf\<close>.\<close>

definition step_prefix :: "string \<Rightarrow> bool" where
  "step_prefix p \<longleftrightarrow>
     p \<in> {''GetRef: '', ''CreateTree: '', ''CreateCommit: '', ''UpdateRef: ''} \<or>
     (take 15 p = ''blob error for '' \<and> drop (length p - 2) p = '': '')"

text \<open>The function has not got past a successful or failed \<open>UpdateRef\<close>.\<close>

definition pre_update :: "mpc \<Rightarrow> bool" where
  "pre_update p \<longleftrightarrow> p \<noteq> PRet None \<and> (\<forall>e. p \<noteq> PRet (Some (ErrWrap ''UpdateRef: '' e)))"

definition ret_ok :: "cfg \<Rightarrow> bool" where
  "ret_ok c = (case pc c of PRet (Some e) \<Rightarrow> (\<exists>p e'. e = ErrWrap p e' \<and> step_prefix p) | _ \<Rightarrow> True)"

lemma main_step_ref_ok:
  assumes st: "main_step x n c = Some c'" and ok: "ref_ok x c"
  shows "ref_ok x c'"
proof (cases "pc c")
  case PGetRef
  obtain res s' where call: "api_call x n (get_ref_op (refname x)) (srv c) = (res, s')"
    by (cases "api_call x n (get_ref_op (refname x)) (srv c)")
  show ?thesis
  proof (cases res)
    case (Inl e)
    with st PGetRef call show ?thesis
      by (auto simp: main_step_def refname_def ref_ok_def pc_ref_def)
  next
    case (Inr rf)
    with call have "ref_name rf = refname x"
      by (auto dest!: api_call_Inr get_ref_op_Inr)
    with st PGetRef call Inr show ?thesis
      by (auto simp: main_step_def refname_def ref_ok_def pc_ref_def)
  qed
qed (use st ok in \<open>auto simp: main_step_def ref_ok_def pc_ref_def collect_result_def
       split: if_splits option.splits prod.splits sum.splits\<close>)

lemma cmf_step_ref_ok: "cmf_step x ch c = Some c' \<Longrightarrow> ref_ok x c \<Longrightarrow> ref_ok x c'"
proof (cases ch)
  case (SMain n)
  then show "cmf_step x ch c = Some c' \<Longrightarrow> ref_ok x c \<Longrightarrow> ref_ok x c'"
    by (auto intro: main_step_ref_ok)
qed (auto simp: spawn_step_def gor_step_def ref_ok_def pc_ref_def receiver_waiting_def collect_result_def
       split: mpc.splits if_splits gor.splits prod.splits option.splits)

lemma reach_ref_ok: "reach x s0 c \<Longrightarrow> ref_ok x c"
proof (induction rule: reach.induct)
  case init
  show ?case by (simp add: ref_ok_def pc_ref_def init_cfg_def)
next
  case (step c ch c')
  from step.hyps(2) step.IH show ?case by (rule cmf_step_ref_ok)
qed


lemma frame_ok_refl [simp]: "frame_ok x s s"
  by (simp add: frame_ok_def)

lemma frame_ok_trans: "frame_ok x s0 s1 \<Longrightarrow> frame_ok x s1 s2 \<Longrightarrow> frame_ok x s0 s2"
  by (simp add: frame_ok_def)

lemma api_call_frame:
  assumes call: "api_call x n f s = (res, s')"
    and keep: "\<And>r a r'. f r = Inr (a, r') \<Longrightarrow> fmdrop (refname x) (refs r') = fmdrop (refname x) (refs r)"
  shows "frame_ok x s s'"
proof -
  from call have "s' = s \<or> s' = snd (with_repo (token x) (owner x) (repo_name x) f s)"
    unfolding api_call_def by (rule net_call_state)
  then show ?thesis
    using with_repo_state [of "token x" "owner x" "repo_name x" f s] keep
    by (auto simp: frame_ok_def repo_of_def fmdrop_fmupd_same)
qed

lemma ops_keep_other_refs:
  shows "get_ref_op nm r = Inr (a1, r1) \<Longrightarrow> fmdrop k (refs r1) = fmdrop k (refs r)"
    and "create_blob_op h v enc r = Inr (a2, r2) \<Longrightarrow> fmdrop k (refs r2) = fmdrop k (refs r)"
    and "create_tree_op h b es r = Inr (a3, r3) \<Longrightarrow> fmdrop k (refs r3) = fmdrop k (refs r)"
    and "create_commit_op h ow rp msg t ps r = Inr (a4, r4) \<Longrightarrow> fmdrop k (refs r4) = fmdrop k (refs r)"
    and "ref_name rf = k \<Longrightarrow> update_ref_op rf force r = Inr (a5, r5) \<Longrightarrow> fmdrop k (refs r5) = fmdrop k (refs r)"
  by (auto dest!: ops_keep_refs update_ref_op_Inr simp: fmdrop_fmupd_same)

lemma main_step_frame:
  assumes m: "main_step x n c = Some c'" and ok: "ref_ok x c"
  shows "frame_ok x (srv c) (srv c')"
proof (cases "pc c")
  case PGetRef
  with m obtain res where "api_call x n (get_ref_op (refname x)) (srv c) = (res, srv c')"
    by (auto simp: main_step_def refname_def split: prod.splits sum.splits)
  then show ?thesis by (rule api_call_frame) (rule ops_keep_other_refs)
next
  case (PTree rf es)
  with m obtain res where "api_call x n (create_tree_op (hsh x) '''' es) (srv c) = (res, srv c')"
    by (auto simp: main_step_def split: prod.splits sum.splits)
  then show ?thesis by (rule api_call_frame) (rule ops_keep_other_refs)
next
  case (PCommit rf t)
  with m obtain res where
    "api_call x n (create_commit_op (hsh x) (owner x) (repo_name x) (message x) (tree_sha t) []) (srv c)
       = (res, srv c')"
    by (auto simp: main_step_def split: prod.splits sum.splits)
  then show ?thesis by (rule api_call_frame) (rule ops_keep_other_refs)
next
  case (PUpdate rf cm)
  with ok have nm: "ref_name (rf\<lparr>ref_sha := commit_sha cm\<rparr>) = refname x"
    by (simp add: ref_ok_def pc_ref_def)
  from m PUpdate obtain res where
    "api_call x n (update_ref_op (rf\<lparr>ref_sha := commit_sha cm\<rparr>) True) (srv c) = (res, srv c')"
    by (auto simp: main_step_def split: prod.splits sum.splits)
  then show ?thesis by (rule api_call_frame) (rule ops_keep_other_refs(5) [OF nm])
qed (use m in \<open>auto simp: main_step_def split: if_splits option.splits prod.splits\<close>)

lemma cmf_step_frame:
  assumes st: "cmf_step x ch c = Some c'" and ok: "ref_ok x c"
  shows "frame_ok x (srv c) (srv c')"
proof (cases ch)
  case (SMain n)
  with st ok show ?thesis by (auto intro: main_step_frame)
next
  case (SSpawn j)
  with st show ?thesis by (auto simp: spawn_step_def split: mpc.splits if_splits)
next
  case (SGor j n)
  with st have g: "gor_step x j n c = Some c'" by simp
  show ?thesis
  proof (cases "\<exists>p v. gors c ! j = GCreate p v")
    case True
    then obtain p v where "gors c ! j = GCreate p v" by blast
    with g obtain res where "api_call x n (create_blob_op (hsh x) v ''utf-8'') (srv c) = (res, srv c')"
      by (auto simp: gor_step_def split: if_splits prod.splits)
    then show ?thesis by (rule api_call_frame) (rule ops_keep_other_refs)
  next
    case False
    with g show ?thesis
      by (auto simp: gor_step_def split: if_splits gor.splits mpc.splits option.splits)
  qed
qed

lemma reach_frame_ok: "reach x s0 c \<Longrightarrow> frame_ok x s0 (srv c)"
proof (induction rule: reach.induct)
  case init
  show ?case by (simp add: init_cfg_def)
next
  case (step c ch c')
  from step.hyps(1) have "ref_ok x c" by (rule reach_ref_ok)
  with step.hyps(2) have "frame_ok x (srv c) (srv c')" by (rule cmf_step_frame)
  with step.IH show ?case by (rule frame_ok_trans)
qed

text \<open>C5: nothing but the target branch changes.  In every reachable configuration,
  under every schedule and network behaviour and for any hash function, the server's
  tokens, every other repository, and every reference of the program's repository
  other than \<open>refs/heads/<branch>\<close> are as they were at the call.\<close>

theorem commit_frame:
  assumes "reach x s0 c"
  shows "tokens (srv c) = tokens s0 \<and>
    fmdrop (owner x, repo_name x) (repos (srv c)) = fmdrop (owner x, repo_name x) (repos s0) \<and>
    map_option (\<lambda>r. fmdrop (refname x) (refs r)) (repo_of x (srv c)) =
      map_option (\<lambda>r. fmdrop (refname x) (refs r)) (repo_of x s0)"
  using reach_frame_ok [OF assms] by (simp add: frame_ok_def)

subsection \<open>Returned errors\<close>

lemma step_prefix_blob: "step_prefix (''blob error for '' @ q @ '': '')"
  by (simp add: step_prefix_def)

lemma blob_prefix_split:
  assumes t: "take 15 p = ''blob error for ''" and d: "drop (length p - 2) p = '': ''"
  shows "\<exists>q. p = ''blob error for '' @ q @ '': ''"
proof -
  from arg_cong [OF t, of length] have l: "15 \<le> length p" by simp
  from arg_cong [OF d, of length] have l2: "2 \<le> length p" by simp
  have colon: "p ! (length p - 2) = CHR '':''"
  proof -
    from l2 have "drop (length p - 2) p ! 0 = p ! (length p - 2)" by simp
    with d show ?thesis by simp
  qed
  have pre: "p ! i = ''blob error for '' ! i" if "i < 15" for i
  proof -
    from that have "take 15 p ! i = p ! i" by simp
    with t show ?thesis by simp
  qed
  have "17 \<le> length p"
  proof (rule ccontr)
    assume "\<not> 17 \<le> length p"
    with l have "length p - 2 = 13 \<or> length p - 2 = 14" by arith
    with colon pre [of 13] pre [of 14] show False by auto
  qed
  let ?q = "take (length p - 17) (drop 15 p)"
  have dd: "drop (length p - 17) (drop 15 p) = drop (length p - 2) p"
    using \<open>17 \<le> length p\<close> by (simp add: add.commute numeral_2_eq_2)
  have "p = take 15 p @ drop 15 p" by simp
  also have "drop 15 p = ?q @ drop (length p - 17) (drop 15 p)" by (rule append_take_drop_id [symmetric])
  finally have "p = ''blob error for '' @ ?q @ '': ''" by (simp only: t dd d)
  then show ?thesis by blast
qed

lemma step_prefix_cases:
  "step_prefix p \<Longrightarrow>
   p \<in> {''GetRef: '', ''CreateTree: '', ''CreateCommit: '', ''UpdateRef: ''} \<or>
   (\<exists>q. p = ''blob error for '' @ q @ '': '')"
  unfolding step_prefix_def using blob_prefix_split by blast

lemma cmf_step_ret_ok:
  assumes st: "cmf_step x ch c = Some c'" and ok: "ret_ok c"
  shows "ret_ok c'"
  using assms
  by (cases ch) (auto simp: ret_ok_def main_step_def spawn_step_def gor_step_def collect_result_def
      receiver_waiting_def step_prefix_blob
      split: mpc.splits prod.splits sum.splits if_splits option.splits gor.splits,
      auto simp: step_prefix_def)

lemma reach_ret_ok: "reach x s0 c \<Longrightarrow> ret_ok c"
proof (induction rule: reach.induct)
  case init
  show ?case by (simp add: ret_ok_def init_cfg_def)
next
  case (step c ch c')
  from step.hyps(2) step.IH show ?case by (rule cmf_step_ret_ok)
qed

text \<open>Once the function has returned, only leftover goroutines move.\<close>

lemma cmf_step_ret_pc: "cmf_step x ch c = Some c' \<Longrightarrow> pc c = PRet r \<Longrightarrow> pc c' = PRet r"
  by (cases ch) (auto simp: main_step_def spawn_step_def gor_step_def receiver_waiting_def
      split: gor.splits if_splits prod.splits option.splits)

subsection \<open>Errors before the reference update\<close>

lemma update_step_pc:
  "main_step x n c = Some c' \<Longrightarrow> pc c = PUpdate rf cm \<Longrightarrow> \<not> pre_update (pc c')"
  by (auto simp: main_step_def pre_update_def split: prod.splits sum.splits)

lemma cmf_step_pre_update:
  assumes st: "cmf_step x ch c = Some c'" and p': "pre_update (pc c')"
    and inv: "pre_update (pc c) \<longrightarrow> branch_ref x (srv c) = branch_ref x s0"
  shows "branch_ref x (srv c') = branch_ref x s0"
proof -
  have notupd: "pc c \<noteq> PUpdate rf cm" if "ch = SMain n" for n rf cm
    using st p' that update_step_pc [of x n c c' rf cm] by auto
  have "pre_update (pc c)"
    using p' cmf_step_ret_pc [OF st] by (auto simp: pre_update_def)
  with inv step_branch_ref_same [OF st notupd] show ?thesis by simp
qed

text \<open>C18: an error return from any step but \<open>UpdateRef\<close> (\<open>GetRef\<close>, a blob,
  \<open>CreateTree\<close>, \<open>CreateCommit\<close>) leaves the branch exactly where it was at the call,
  for any hash function and whatever leftover goroutines do afterwards.  Only an
  \<open>UpdateRef\<close> error can hide a moved branch.\<close>

theorem error_keeps_branch:
  assumes "reach x s0 c" and "pc c = PRet (Some e)" and "\<forall>e'. e \<noteq> ErrWrap ''UpdateRef: '' e'"
  shows "branch_ref x (srv c) = branch_ref x s0"
proof -
  have "pre_update (pc c) \<longrightarrow> branch_ref x (srv c) = branch_ref x s0"
    using assms(1)
  proof (induction rule: reach.induct)
    case init
    show ?case by (simp add: init_cfg_def)
  next
    case (step c ch c')
    show ?case using cmf_step_pre_update [OF step.hyps(2) _ step.IH] by blast
  qed
  with assms(2,3) show ?thesis by (simp add: pre_update_def)
qed

end
