(* ===== verification/CommitOutput.thy ===== *)
theory CommitOutput
  imports CommitFrame
begin

text \<open>
  What \<open>commitMultipleFiles\<close> prints (line 88, \<open>fmt.Println\<close>): nothing until the
  reference has been updated, then the one line \<open>Commit created: <url>\<close>, where the
  URL is the GitHub page of the commit the branch now points to.  An error return
  prints nothing.
\<close>

text \<open>The output so far, by position of the calling goroutine.\<close>

definition out_inv :: "ctx \<Rightarrow> cfg \<Rightarrow> bool" where
  "out_inv x c =
     (case pc c of
        PRet None \<Rightarrow>
          stdout c = [commit_created_line (commit_url_of (owner x) (repo_name x) (hsh x (files_commit x)))]
      | PUpdate rf cm \<Rightarrow>
          stdout c = [] \<and> commit_url cm = commit_url_of (owner x) (repo_name x) (commit_sha cm)
      | _ \<Rightarrow> stdout c = [])"

lemma create_commit_op_url:
  "create_commit_op h ow rp msg t ps r = Inr (cm, r') \<Longrightarrow>
   commit_url cm = commit_url_of ow rp (commit_sha cm)"
  by (auto simp: create_commit_op_def Let_def split: option.splits gobject.splits if_splits)

text \<open>Only the reference update that succeeds writes to standard output.\<close>

lemma cmf_step_stdout:
  "cmf_step x ch c = Some c' \<Longrightarrow> stdout c' = stdout c \<or> pc c' = PRet None"
  by (cases ch) (auto simp: main_step_def spawn_step_def gor_step_def
      split: mpc.splits prod.splits sum.splits if_splits option.splits gor.splits)

lemma main_step_out_inv:
  assumes st: "main_step x n c = Some c'" and inv: "content_inv x c" and out: "out_inv x c"
  shows "out_inv x c'"
proof (cases "pc c")
  case (PCommit rf t)
  let ?f = "create_commit_op (hsh x) (owner x) (repo_name x) (message x) (tree_sha t) []"
  obtain res s' where call: "api_call x n ?f (srv c) = (res, s')"
    by (cases "api_call x n ?f (srv c)")
  show ?thesis
  proof (cases res)
    case (Inl e)
    with st PCommit call out show ?thesis by (auto simp: main_step_def out_inv_def)
  next
    case (Inr cm)
    with call have "commit_url cm = commit_url_of (owner x) (repo_name x) (commit_sha cm)"
      by (auto dest!: api_call_Inr create_commit_op_url)
    with st PCommit call Inr out show ?thesis by (auto simp: main_step_def out_inv_def)
  qed
next
  case (PUpdate rf cm)
  let ?f = "update_ref_op (rf\<lparr>ref_sha := commit_sha cm\<rparr>) True"
  obtain res s' where call: "api_call x n ?f (srv c) = (res, s')"
    by (cases "api_call x n ?f (srv c)")
  from inv PUpdate have "commit_sha cm = hsh x (files_commit x)"
    by (simp add: content_inv_def)
  with st PUpdate call out show ?thesis
    by (cases res) (auto simp: main_step_def out_inv_def)
qed (use st out in \<open>auto simp: main_step_def out_inv_def collect_result_def
       split: if_splits option.splits prod.splits sum.splits\<close>)

lemma cmf_step_out_inv:
  assumes st: "cmf_step x ch c = Some c'" and inv: "content_inv x c" and out: "out_inv x c"
  shows "out_inv x c'"
proof (cases ch)
  case (SMain n)
  with st inv out show ?thesis by (auto intro: main_step_out_inv)
qed (use st out in \<open>auto simp: spawn_step_def gor_step_def out_inv_def receiver_waiting_def
       collect_result_def split: mpc.splits if_splits gor.splits prod.splits option.splits\<close>)

lemma reach_out_inv: "reach x s0 c \<Longrightarrow> inj (hsh x) \<Longrightarrow> out_inv x c"
proof (induction rule: reach.induct)
  case init
  show ?case by (simp add: out_inv_def init_cfg_def)
next
  case (step c ch c')
  from step.hyps(1) step.prems have "content_inv x c" by (rule reach_content_inv)
  from cmf_step_out_inv [OF step.hyps(2) this step.IH [OF step.prems]] show ?case .
qed

lemma reach_quiet: "reach x s0 c \<Longrightarrow> pc c \<noteq> PRet None \<Longrightarrow> stdout c = []"
proof (induction rule: reach.induct)
  case init
  show ?case by (simp add: init_cfg_def)
next
  case (step c ch c')
  from cmf_step_stdout [OF step.hyps(2)] step.prems have "stdout c' = stdout c" by simp
  moreover have "pc c \<noteq> PRet None"
    using cmf_step_ret_pc [OF step.hyps(2)] step.prems by blast
  ultimately show ?case using step.IH by simp
qed

text \<open>C11: \<open>commitMultipleFiles\<close> writes to standard output only when it returns
  \<open>nil\<close>, and then exactly one line: \<open>Commit created: \<close> followed by the GitHub URL
  of the commit of the given files.  Before it returns, and after an error return,
  it has printed nothing (the hash function is assumed collision-free).\<close>

theorem commit_output:
  assumes "reach x s0 c" and "inj (hsh x)"
  shows "stdout c =
    (if pc c = PRet None
     then [commit_created_line (commit_url_of (owner x) (repo_name x) (hsh x (files_commit x)))]
     else [])"
  using reach_out_inv [OF assms]
  by (auto simp: out_inv_def split: mpc.splits option.splits)

end
