(* ===== verification/GoMain.thy ===== *)
theory GoMain
  imports CommitOutput
begin

text \<open>
  \<open>main\<close> (src/main.go, lines 92--146): read \<open>GITHUB_TOKEN\<close> from the environment,
  read the hard-coded local files into a map, build the client and call
  \<open>commitMultipleFiles\<close> with the hard-coded owner, repository, branch and message,
  then report.  The environment and the file system are finite maps; an unreadable
  file is a missing entry.  \<open>log.Fatal\<close> ends the process with its message
  (\<open>ExitFatal\<close>); the process otherwise exits normally after printing the timing
  line, whose duration is left open.  Leftover goroutines die with the process, so
  the server at exit is the server of any reachable configuration in which the call
  has returned.
\<close>

definition main_owner :: string where "main_owner = ''Santosh-etailify''"
definition main_repo :: string where "main_repo = ''gitapis6''"
definition main_branch :: string where "main_branch = ''main''"
definition main_commit_message :: string where
  "main_commit_message = ''AutoInitialized main branch with a default readme file''"
definition local_files :: "string list" where "local_files = [''main.go'']"

text \<open>\<open>os.Getenv\<close>: the empty string for an unset variable.\<close>

definition getenv :: "(string, string) fmap \<Rightarrow> string \<Rightarrow> string" where
  "getenv env k = (case fmlookup env k of None \<Rightarrow> '''' | Some v \<Rightarrow> v)"

text \<open>The loop of lines 111--121: \<open>os.ReadFile\<close> each path and store it under its
  path; the first failure is fatal.\<close>

fun read_local_files ::
  "(string, string) fmap \<Rightarrow> string list \<Rightarrow> (path, content) fmap \<Rightarrow> string + (path, content) fmap" where
  "read_local_files fsys [] m = Inr m"
| "read_local_files fsys (p # ps) m =
     (case fmlookup fsys p of
        None \<Rightarrow> Inl (''Failed to read '' @ p @ '': open '' @ p @ '': no such file or directory'')
      | Some v \<Rightarrow> read_local_files fsys ps (fmupd p v m))"

text \<open>Lines 94--127: the checks before the call, and the call's arguments.\<close>

definition main_setup :: "hashfn \<Rightarrow> (string, string) fmap \<Rightarrow> (string, string) fmap \<Rightarrow> string + ctx" where
  "main_setup h env fsys =
     (let tok = getenv env ''GITHUB_TOKEN'' in
      if tok = '''' then Inl ''GITHUB_TOKEN is not set in the environment''
      else case read_local_files fsys local_files fmempty of
        Inl m \<Rightarrow> Inl m
      | Inr fl \<Rightarrow> Inr \<lparr>hsh = h, token = tok, owner = main_owner, repo_name = main_repo,
                      branch = main_branch, files = fl, message = main_commit_message\<rparr>)"

datatype exit_status = ExitOk | ExitFatal string

definition timing_line :: "string \<Rightarrow> string" where
  "timing_line d = [CHR 0xE2, CHR 0x8F, CHR 0xB1, CHR 0xEF, CHR 0xB8, CHR 0x8F] @
     ''  upsertMultipleFilesSafe took: '' @ d"

text \<open>A run of the program: from the server \<open>s\<close> to the exit status, the server at
  exit and what was printed to standard output (lines 134--141).\<close>

inductive main_run ::
  "hashfn \<Rightarrow> (string, string) fmap \<Rightarrow> (string, string) fmap \<Rightarrow> server \<Rightarrow> string \<Rightarrow>
   exit_status \<Rightarrow> server \<Rightarrow> string list \<Rightarrow> bool" where
  setup_fatal: "main_setup h env fsys = Inl m \<Longrightarrow> main_run h env fsys s d (ExitFatal m) s []"
| commit_fatal: "main_setup h env fsys = Inr x \<Longrightarrow> reach x s c \<Longrightarrow> pc c = PRet (Some e) \<Longrightarrow>
    main_run h env fsys s d (ExitFatal (''Failed to upsert files: '' @ err_msg e)) (srv c) (stdout c)"
| commit_ok: "main_setup h env fsys = Inr x \<Longrightarrow> reach x s c \<Longrightarrow> pc c = PRet None \<Longrightarrow>
    main_run h env fsys s d ExitOk (srv c) (stdout c @ [timing_line d])"

text \<open>Where \<open>main\<close>'s branch points on a server: the view of the program's own
  repository and branch, used to state what a run leaves behind.\<close>

definition main_head :: "server \<Rightarrow> sha option" where
  "main_head s =
     (case fmlookup (repos s) (main_owner, main_repo) of
        None \<Rightarrow> None
      | Some r \<Rightarrow> fmlookup (refs r) (''refs/heads/'' @ main_branch))"

inductive_cases main_run_cases: "main_run h env fsys s d st s' out"

subsection \<open>Reading the files\<close>

lemma read_local_files_Inr:
  "read_local_files fsys ps m = Inr m' \<Longrightarrow>
   fmlookup m' k = (if k \<in> set ps then fmlookup fsys k else fmlookup m k)"
proof (induction ps arbitrary: m)
  case Nil
  then show ?case by simp
next
  case (Cons p ps)
  then show ?case by (auto split: option.splits if_splits)
qed

lemma read_local_files_Inl:
  "p \<in> set ps \<Longrightarrow> fmlookup fsys p = None \<Longrightarrow> \<exists>msg. read_local_files fsys ps m = Inl msg"
proof (induction ps arbitrary: m)
  case Nil
  then show ?case by simp
next
  case (Cons q ps)
  then show ?case by (cases "fmlookup fsys q") auto
qed


text \<open>C17: the file-reading loop of \<open>main\<close> refines its abstract specification: it
  returns the file system restricted to the listed paths, added to the map it
  starts from, or, if a listed path is unreadable, the \<open>os.ReadFile\<close> error of the
  first such path in the list.\<close>

theorem read_local_files_spec:
  "read_local_files fsys ps m =
     (case find (\<lambda>p. fmlookup fsys p = None) ps of
        Some p \<Rightarrow> Inl (''Failed to read '' @ p @ '': open '' @ p @ '': no such file or directory'')
      | None \<Rightarrow> Inr (m ++\<^sub>f fmrestrict_set (set ps) fsys))"
proof (induction ps arbitrary: m)
  case Nil
  then show ?case by (simp add: fmap_ext)
next
  case (Cons p ps)
  show ?case
  proof (cases "fmlookup fsys p")
    case None
    then show ?thesis by simp
  next
    case (Some v)
    have "fmupd p v m ++\<^sub>f fmrestrict_set (set ps) fsys = m ++\<^sub>f fmrestrict_set (insert p (set ps)) fsys"
      by (rule fmap_ext) (auto simp del: fmlookup_add simp add: Some fmlookup_add_restrict split: option.splits)
    with Some Cons.IH [of "fmupd p v m"] show ?thesis by (simp split: option.splits)
  qed
qed

subsection \<open>The call's arguments\<close>

text \<open>When \<open>main\<close> gets as far as the call, it calls \<open>commitMultipleFiles\<close> with
  the bearer token from the environment (never empty), the hard-coded owner,
  repository, branch and message, and a map that holds exactly \<open>main.go\<close> with the
  content read from disk.\<close>

lemma main_setup_Inr:
  assumes "main_setup h env fsys = Inr x"
  shows "hsh x = h \<and> token x = getenv env ''GITHUB_TOKEN'' \<and> token x \<noteq> '''' \<and>
    owner x = main_owner \<and> repo_name x = main_repo \<and> branch x = main_branch \<and>
    message x = main_commit_message \<and>
    (\<exists>v. fmlookup fsys ''main.go'' = Some v \<and> files x = fmupd ''main.go'' v fmempty)"
  using assms
  by (auto simp: main_setup_def Let_def local_files_def split: if_splits sum.splits option.splits)

lemma main_setup_branch_ref:
  "main_setup h env fsys = Inr x \<Longrightarrow> branch_ref x s = main_head s"
  using main_setup_Inr [of h env fsys x]
  by (simp add: branch_ref_def repo_of_def refname_def main_head_def split: option.splits)

lemma main_setup_read_branch:
  "main_setup h env fsys = Inr x \<Longrightarrow>
   read_branch s (owner x) (repo_name x) (branch x) = read_branch s main_owner main_repo main_branch"
  using main_setup_Inr [of h env fsys x] by simp

lemma main_setup_files:
  assumes "main_setup h env fsys = Inr x"
  obtains v where "fmlookup fsys ''main.go'' = Some v"
    and "sorted_list_of_fmap (files x) = [(''main.go'', v)]"
  using main_setup_Inr [OF assms] by auto

subsection \<open>Fatal exits before the call\<close>

text \<open>C9: with \<open>GITHUB_TOKEN\<close> unset or empty, \<open>main\<close> stops with the fatal
  message \<open>GITHUB_TOKEN is not set in the environment\<close> before any request: the
  server is unchanged and nothing is printed to standard output.\<close>

theorem main_token_unset:
  assumes "main_run h env fsys s d st s' out" and "getenv env ''GITHUB_TOKEN'' = ''''"
  shows "st = ExitFatal ''GITHUB_TOKEN is not set in the environment'' \<and> s' = s \<and> out = []"
  using assms
  by (auto elim!: main_run_cases simp: main_setup_def)

text \<open>C10: with the token set but \<open>main.go\<close> unreadable, \<open>main\<close> stops with the
  fatal message naming the file and the \<open>os.ReadFile\<close> error, before any request:
  the server is unchanged and nothing is printed.\<close>

theorem main_file_missing:
  assumes "main_run h env fsys s d st s' out" and "getenv env ''GITHUB_TOKEN'' \<noteq> ''''"
    and "fmlookup fsys ''main.go'' = None"
  shows "st = ExitFatal ''Failed to read main.go: open main.go: no such file or directory'' \<and>
    s' = s \<and> out = []"
  using assms
  by (auto elim!: main_run_cases simp: main_setup_def Let_def local_files_def)

end
