(* ===== verification/Sequential.thy ===== *)
theory Sequential
  imports CommitCorrect
begin

text \<open>
  A sequential reference for \<open>commitMultipleFiles\<close>: the same API calls made one
  after another by a single goroutine, with the blobs created in path order and the
  first failed blob returned at once.  It is what the function computes when the
  network is reliable, and it is evaluated by the simplifier.  The theory also
  computes the reference's result in closed form when the token, the repository and
  the branch are valid.
\<close>

text \<open>A scheduler choice under which the network serves every request.\<close>

fun served :: "sched \<Rightarrow> bool" where
  "served (SMain n) = (n = Served)"
| "served (SSpawn j) = True"
| "served (SGor j n) = (n = Served)"

fun seq_blobs :: "ctx \<Rightarrow> (path \<times> content) list \<Rightarrow> server \<Rightarrow> (goerr + tree_entry list) \<times> server" where
  "seq_blobs x [] s = (Inr [], s)"
| "seq_blobs x ((p, v) # kvs) s =
     (case api_call x Served (create_blob_op (hsh x) v ''utf-8'') s of
        (Inl e, s') \<Rightarrow> (Inl (ErrWrap (''blob error for '' @ p @ '': '') e), s')
      | (Inr sh, s') \<Rightarrow>
          (case seq_blobs x kvs s' of
             (Inl e, s'') \<Rightarrow> (Inl e, s'')
           | (Inr es, s'') \<Rightarrow> (Inr (blob_entry (blob_call_result p (Inr sh)) # es), s'')))"

definition commit_seq :: "ctx \<Rightarrow> server \<Rightarrow> goerr option \<times> server \<times> string list" where
  "commit_seq x s =
     (case api_call x Served (get_ref_op (''refs/heads/'' @ branch x)) s of
        (Inl e, s1) \<Rightarrow> (Some (ErrWrap ''GetRef: '' e), s1, [])
      | (Inr rf, s1) \<Rightarrow>
          (case seq_blobs x (sorted_list_of_fmap (files x)) s1 of
             (Inl e, s2) \<Rightarrow> (Some e, s2, [])
           | (Inr es, s2) \<Rightarrow>
               (case api_call x Served (create_tree_op (hsh x) '''' es) s2 of
                  (Inl e, s3) \<Rightarrow> (Some (ErrWrap ''CreateTree: '' e), s3, [])
                | (Inr t, s3) \<Rightarrow>
                    (case api_call x Served
                            (create_commit_op (hsh x) (owner x) (repo_name x) (message x) (tree_sha t) []) s3 of
                       (Inl e, s4) \<Rightarrow> (Some (ErrWrap ''CreateCommit: '' e), s4, [])
                     | (Inr cm, s4) \<Rightarrow>
                         (case api_call x Served (update_ref_op (rf\<lparr>ref_sha := commit_sha cm\<rparr>) True) s4 of
                            (Inl e, s5) \<Rightarrow> (Some (ErrWrap ''UpdateRef: '' e), s5, [])
                          | (Inr _, s5) \<Rightarrow> (None, s5, [commit_created_line (commit_url cm)]))))))"

text \<open>The objects a successful call stores: the blob of every file, in path order,
  then the tree and the commit.\<close>

definition new_objs :: "ctx \<Rightarrow> gobject list" where
  "new_objs x = map (\<lambda>pv. GBlob (snd pv)) (sorted_list_of_fmap (files x)) @ [files_tree x, files_commit x]"

text \<open>The program's repository after a successful call.\<close>

definition seq_repo :: "ctx \<Rightarrow> repo \<Rightarrow> repo" where
  "seq_repo x r =
     (fold (put_object (hsh x)) (new_objs x) r)\<lparr>refs := fmupd (refname x) (hsh x (files_commit x)) (refs r)\<rparr>"

text \<open>The server after the program's repository is replaced by \<open>r\<close>.\<close>

abbreviation put_repo :: "ctx \<Rightarrow> repo \<Rightarrow> server \<Rightarrow> server" where
  "put_repo x r s \<equiv> s\<lparr>repos := fmupd (owner x, repo_name x) r (repos s)\<rparr>"

text \<open>The token is accepted and the repository and the branch exist.\<close>

definition api_ok :: "ctx \<Rightarrow> server \<Rightarrow> bool" where
  "api_ok x s \<longleftrightarrow> token x \<in> set (tokens s) \<and> branch_ref x s \<noteq> None"

subsection \<open>Storing a list of objects\<close>

lemma fold_put_refs [simp]: "refs (fold (put_object h) obs r) = refs r"
  by (induction obs arbitrary: r) simp_all

lemma fold_put_other:
  "k \<notin> h ` set obs \<Longrightarrow> fmlookup (objects (fold (put_object h) obs r)) k = fmlookup (objects r) k"
  by (induction obs arbitrary: r) (auto simp: put_object_def)


lemma fold_put_stores:
  assumes "inj h" and "ob \<in> set obs"
  shows "fmlookup (objects (fold (put_object h) obs r)) (h ob) = Some ob"
proof -
  from assms(2) obtain ys zs where obs: "obs = ys @ ob # zs" and nz: "ob \<notin> set zs"
    by (blast dest: split_list_last)
  from nz assms(1) have "h ob \<notin> h ` set zs" by (auto dest: injD)
  then show ?thesis by (simp add: obs fold_put_other put_object_stores)
qed

subsection \<open>The reference with valid credentials\<close>

lemma put_repo_same: "repo_of x s = Some r \<Longrightarrow> put_repo x r s = s"
  by (simp add: repo_of_def fmupd_same)

lemma api_call_served:
  "token x \<in> set (tokens s) \<Longrightarrow> repo_of x s = Some r \<Longrightarrow> f r = Inr (a, r') \<Longrightarrow>
   api_call x Served f s = (Inr a, put_repo x r' s)"
  by (simp add: api_call_def net_call_def with_repo_def repo_of_def)

lemma seq_blobs_ok:
  assumes "token x \<in> set (tokens s)" and "repo_of x s = Some r"
  shows "seq_blobs x kvs s =
    (Inr (map (\<lambda>(p, v). blob_entry (blob_call_result p (Inr (hsh x (GBlob v))))) kvs),
     put_repo x (fold (put_object (hsh x)) (map (\<lambda>pv. GBlob (snd pv)) kvs) r) s)"
  using assms
proof (induction kvs arbitrary: s r)
  case Nil
  then show ?case by (simp add: put_repo_same)
next
  case (Cons pv kvs)
  obtain p v where pv: "pv = (p, v)" by (cases pv)
  let ?r1 = "put_object (hsh x) (GBlob v) r"
  have call: "api_call x Served (create_blob_op (hsh x) v ''utf-8'') s = (Inr (hsh x (GBlob v)), put_repo x ?r1 s)"
    using Cons.prems by (rule api_call_served) (simp add: create_blob_op_def)
  have "token x \<in> set (tokens (put_repo x ?r1 s))" and "repo_of x (put_repo x ?r1 s) = Some ?r1"
    using Cons.prems by (simp_all add: repo_of_def)
  from Cons.IH [OF this] call show ?case by (simp add: pv)
qed

lemma seq_entries_items:
  "tree_items [] (map (\<lambda>(p, v). blob_entry (blob_call_result p (Inr (hsh x (GBlob v))))) (sorted_list_of_fmap (files x))) =
   map (file_item x) (sorted_list_of_fmap (files x))"
proof -
  have m: "map entry_item (map (\<lambda>(p, v). blob_entry (blob_call_result p (Inr (hsh x (GBlob v))))) kvs) =
        map (file_item x) kvs" for kvs
    by (induction kvs) (auto simp: entry_item_def blob_entry_def blob_call_result_def file_item_def)
  have "sorted (map (\<lambda>it. fst (snd it)) (map (file_item x) (sorted_list_of_fmap (files x))))"
    by (simp add: comp_def map_fst_sorted_list_of_fmap [symmetric])
  then show ?thesis
    unfolding tree_items_def filter.simps(1) append_Nil m by (rule sort_key_id_if_sorted)
qed

lemma commit_seq_getref_Inl:
  "api_call x Served (get_ref_op (refname x)) s = (Inl e, s') \<Longrightarrow>
   commit_seq x s = (Some (ErrWrap ''GetRef: '' e), s', [])"
  by (simp add: commit_seq_def refname_def)

lemma commit_seq_ok:
  assumes ok: "api_ok x s" and r: "repo_of x s = Some r" and inj: "inj (hsh x)"
  shows "commit_seq x s =
    (None, put_repo x (seq_repo x r) s,
     [commit_created_line (commit_url_of (owner x) (repo_name x) (hsh x (files_commit x)))])"
proof -
  let ?h = "hsh x" and ?kvs = "sorted_list_of_fmap (files x)"
  let ?bl = "map (\<lambda>pv. GBlob (snd pv)) ?kvs"
  let ?es = "map (\<lambda>(p, v). blob_entry (blob_call_result p (Inr (hsh x (GBlob v))))) ?kvs"
  let ?r1 = "fold (put_object ?h) ?bl r"
  let ?T = "files_tree x" and ?C = "files_commit x"
  let ?r2 = "put_object ?h ?T ?r1" and ?r3 = "put_object ?h ?C (put_object ?h ?T ?r1)"
  from ok r obtain old where tok: "token x \<in> set (tokens s)"
    and old: "fmlookup (refs r) (refname x) = Some old"
    by (auto simp: api_ok_def branch_ref_def)
  have get: "api_call x Served (get_ref_op (''refs/heads/'' @ branch x)) s =
             (Inr \<lparr>ref_name = refname x, ref_sha = old\<rparr>, s)"
    using api_call_served [OF tok r, of "get_ref_op (refname x)"] old
    by (simp add: get_ref_op_def refname_def put_repo_same [OF r])
  have blobs: "seq_blobs x ?kvs s = (Inr ?es, put_repo x ?r1 s)"
    by (rule seq_blobs_ok [OF tok r])
  have s1: "token x \<in> set (tokens (put_repo x ?r1 s))" "repo_of x (put_repo x ?r1 s) = Some ?r1"
    using tok by (simp_all add: repo_of_def)
  have "fmlookup (objects ?r1) (?h (GBlob v)) = Some (GBlob v)" if "fmlookup (files x) p = Some v" for p v
  proof (rule fold_put_stores [OF inj])
    from that have "(p, v) \<in> set ?kvs" by simp
    then show "GBlob v \<in> set ?bl" unfolding set_map by (rule rev_image_eqI) simp
  qed
  then have stored: "list_all (\<lambda>e. te_type e = ''blob'' \<and> is_blob (objects ?r1) (te_sha e)) ?es"
    by (auto simp: list_all_iff blob_entry_def blob_call_result_def is_blob_def)
  have tree: "api_call x Served (create_tree_op ?h '''' ?es) (put_repo x ?r1 s) =
              (Inr \<lparr>tree_sha = ?h ?T, tree_entries = map item_entry (map (file_item x) ?kvs)\<rparr>,
               put_repo x ?r2 s)"
  proof -
    have "create_tree_op ?h '''' ?es ?r1 =
          Inr (\<lparr>tree_sha = ?h ?T, tree_entries = map item_entry (map (file_item x) ?kvs)\<rparr>, ?r2)"
      using stored by (simp add: create_tree_op_def base_items_def seq_entries_items files_tree_def Let_def)
    from api_call_served [where f = "create_tree_op ?h '''' ?es", OF s1 this] show ?thesis by simp
  qed
  have s2: "token x \<in> set (tokens (put_repo x ?r2 s))" "repo_of x (put_repo x ?r2 s) = Some ?r2"
    using tok by (simp_all add: repo_of_def)
  have commit: "api_call x Served (create_commit_op ?h (owner x) (repo_name x) (message x) (?h ?T) [])
                  (put_repo x ?r2 s) =
                (Inr \<lparr>commit_sha = ?h ?C, commit_url = commit_url_of (owner x) (repo_name x) (?h ?C),
                      commit_message = message x, commit_tree = ?h ?T, commit_parents = []\<rparr>,
                 put_repo x ?r3 s)"
  proof -
    have "create_commit_op ?h (owner x) (repo_name x) (message x) (?h ?T) [] ?r2 =
          Inr (\<lparr>commit_sha = ?h ?C, commit_url = commit_url_of (owner x) (repo_name x) (?h ?C),
                commit_message = message x, commit_tree = ?h ?T, commit_parents = []\<rparr>, ?r3)"
      by (simp add: create_commit_op_def put_object_stores files_tree_def files_commit_def Let_def)
    from api_call_served [where f = "create_commit_op ?h (owner x) (repo_name x) (message x) (?h ?T) []",
        OF s2 this] show ?thesis by simp
  qed
  have s3: "token x \<in> set (tokens (put_repo x ?r3 s))" "repo_of x (put_repo x ?r3 s) = Some ?r3"
    using tok by (simp_all add: repo_of_def)
  have upd: "api_call x Served (update_ref_op \<lparr>ref_name = refname x, ref_sha = ?h ?C\<rparr> True)
               (put_repo x ?r3 s) =
             (Inr \<lparr>ref_name = refname x, ref_sha = ?h ?C\<rparr>, put_repo x (seq_repo x r) s)"
  proof -
    have "update_ref_op \<lparr>ref_name = refname x, ref_sha = ?h ?C\<rparr> True ?r3 =
          Inr (\<lparr>ref_name = refname x, ref_sha = ?h ?C\<rparr>, seq_repo x r)"
      using old by (simp add: update_ref_op_def is_commit_def put_object_stores seq_repo_def new_objs_def
          files_commit_def)
    from api_call_served [where f = "update_ref_op \<lparr>ref_name = refname x, ref_sha = ?h ?C\<rparr> True",
        OF s3 this] show ?thesis by simp
  qed
  show ?thesis
    unfolding commit_seq_def get by (simp add: blobs tree commit upd)
qed

end
