(* ===== verification/ObjectStore.thy ===== *)
theory ObjectStore
  imports Sequential
begin

text \<open>
  What \<open>commitMultipleFiles\<close> writes into its repository's object store.  Under
  every schedule and every behaviour of the network, an entry of the store that
  differs from the store at the call holds one of the objects of the snapshot (a
  blob of a given file, their tree or their commit) under its hash.
\<close>

definition repo_objs :: "ctx \<Rightarrow> server \<Rightarrow> (sha, gobject) fmap" where
  "repo_objs x s = (case repo_of x s of None \<Rightarrow> fmempty | Some r \<Rightarrow> objects r)"

text \<open>Every object that differs from the call's store is an object of the snapshot,
  stored under its hash.\<close>

definition objs_inv :: "ctx \<Rightarrow> server \<Rightarrow> server \<Rightarrow> bool" where
  "objs_inv x s0 s \<longleftrightarrow>
     (\<forall>k. fmlookup (repo_objs x s) k = fmlookup (repo_objs x s0) k \<or>
          (\<exists>ob\<in>set (new_objs x). k = hsh x ob \<and> fmlookup (repo_objs x s) k = Some ob))"

text \<open>An object a step may write into the store \<open>s\<close> it runs on: an object of the
  snapshot, the tree only once the blobs are stored, the commit only once the tree
  is.\<close>

definition step_obj :: "ctx \<Rightarrow> server \<Rightarrow> gobject \<Rightarrow> bool" where
  "step_obj x s ob \<longleftrightarrow>
     ob \<in> set (new_objs x) \<and> (ob = files_tree x \<longrightarrow> blobs_stored x s) \<and>
     (ob = files_commit x \<longrightarrow> has_obj x s (files_tree x))"

text \<open>A repository-level operation writes nothing, or one object satisfying \<open>P\<close>.\<close>

definition writes :: "(gobject \<Rightarrow> bool) \<Rightarrow> hashfn \<Rightarrow> (repo \<Rightarrow> goerr + ('a \<times> repo)) \<Rightarrow> bool" where
  "writes P h f \<longleftrightarrow>
     (\<forall>r a r'. f r = Inr (a, r') \<longrightarrow>
        objects r' = objects r \<or> (\<exists>ob. P ob \<and> objects r' = objects (put_object h ob r)))"

subsection \<open>What a step writes\<close>

lemma api_call_changes:
  assumes call: "api_call x n f s = (res, s')" and w: "writes P (hsh x) f"
    and ch: "fmlookup (repo_objs x s') k \<noteq> fmlookup (repo_objs x s) k"
  shows "\<exists>ob. P ob \<and> k = hsh x ob \<and> fmlookup (repo_objs x s') k = Some ob"
proof -
  from call have "s' = s \<or> s' = snd (with_repo (token x) (owner x) (repo_name x) f s)"
    unfolding api_call_def by (rule net_call_state)
  with ch have s': "s' = snd (with_repo (token x) (owner x) (repo_name x) f s)" by auto
  from with_repo_state [of "token x" "owner x" "repo_name x" f s] s' ch
  obtain r a r' where r: "repo_of x s = Some r" and f: "f r = Inr (a, r')" and s'': "s' = put_repo x r' s"
    by (auto simp: repo_of_def)
  then have o: "repo_objs x s' = objects r'" "repo_objs x s = objects r"
    by (simp_all add: repo_objs_def repo_of_def)
  from f w consider "objects r' = objects r"
    | ob where "P ob" "objects r' = objects (put_object (hsh x) ob r)"
    unfolding writes_def by blast
  then show ?thesis
  proof cases
    case 1
    with ch o show ?thesis by simp
  next
    case (2 ob)
    with ch o have "k = hsh x ob" by (auto simp: put_object_def split: if_splits)
    with 2 o show ?thesis by (auto simp: put_object_def)
  qed
qed

lemma blob_new_obj: "fmlookup (files x) p = Some v \<Longrightarrow> GBlob v \<in> set (new_objs x)"
proof -
  assume "fmlookup (files x) p = Some v"
  then have "(p, v) \<in> set (sorted_list_of_fmap (files x))" by simp
  then have "GBlob v \<in> (\<lambda>pv. GBlob (snd pv)) ` set (sorted_list_of_fmap (files x))"
    by (rule rev_image_eqI) simp
  then show ?thesis by (simp add: new_objs_def)
qed

lemma ops_write:
  shows "writes P h (get_ref_op nm)"
    and "fmlookup (files x) p = Some v \<Longrightarrow> writes (step_obj x s) (hsh x) (create_blob_op (hsh x) v enc)"
    and "list_all (good_entry x s) es \<Longrightarrow> mset (map te_path es) = mset (all_paths x) \<Longrightarrow>
         writes (step_obj x s) (hsh x) (create_tree_op (hsh x) '''' es)"
    and "t = hsh x (files_tree x) \<Longrightarrow> has_obj x s (files_tree x) \<Longrightarrow>
         writes (step_obj x s) (hsh x) (create_commit_op (hsh x) (owner x) (repo_name x) (message x) t [])"
    and "writes P h (update_ref_op rf force)"
proof -
  show "writes P h (get_ref_op nm)"
    by (auto simp: writes_def dest!: get_ref_op_Inr)
  show "writes P h (update_ref_op rf force)"
    by (auto simp: writes_def dest!: update_ref_op_Inr)
  show "fmlookup (files x) p = Some v \<Longrightarrow> writes (step_obj x s) (hsh x) (create_blob_op (hsh x) v enc)"
    by (auto simp: writes_def step_obj_def files_tree_def files_commit_def
        dest!: create_blob_op_Inr intro!: exI [of _ "GBlob v"] blob_new_obj)
  show "list_all (good_entry x s) es \<Longrightarrow> mset (map te_path es) = mset (all_paths x) \<Longrightarrow>
         writes (step_obj x s) (hsh x) (create_tree_op (hsh x) '''' es)"
    by (auto simp: writes_def step_obj_def new_objs_def base_items_def files_tree_def files_commit_def
        tree_items_files entries_blobs_stored dest!: create_tree_op_Inr
        intro!: exI [of _ "files_tree x"])
  show "t = hsh x (files_tree x) \<Longrightarrow> has_obj x s (files_tree x) \<Longrightarrow>
         writes (step_obj x s) (hsh x) (create_commit_op (hsh x) (owner x) (repo_name x) (message x) t [])"
    by (auto simp: writes_def step_obj_def new_objs_def files_commit_def files_tree_def
        dest!: create_commit_op_Inr intro!: exI [of _ "files_commit x"])
qed

lemma main_step_changes:
  assumes st: "main_step x n c = Some c'" and inv: "content_inv x c"
    and ch: "fmlookup (repo_objs x (srv c')) k \<noteq> fmlookup (repo_objs x (srv c)) k"
  shows "\<exists>ob. step_obj x (srv c) ob \<and> k = hsh x ob \<and> fmlookup (repo_objs x (srv c')) k = Some ob"
proof (cases "pc c")
  case PGetRef
  with st obtain res where "api_call x n (get_ref_op (refname x)) (srv c) = (res, srv c')"
    by (auto simp: main_step_def refname_def split: prod.splits sum.splits)
  from api_call_changes [OF this ops_write(1) ch] show ?thesis .
next
  case (PTree rf es)
  with st obtain res where call: "api_call x n (create_tree_op (hsh x) '''' es) (srv c) = (res, srv c')"
    by (auto simp: main_step_def split: prod.splits sum.splits)
  from inv PTree have "writes (step_obj x (srv c)) (hsh x) (create_tree_op (hsh x) '''' es)"
    by (intro ops_write(3)) (simp_all add: content_inv_def)
  from api_call_changes [OF call this ch] show ?thesis .
next
  case (PCommit rf t)
  with st obtain res where call:
    "api_call x n (create_commit_op (hsh x) (owner x) (repo_name x) (message x) (tree_sha t) []) (srv c)
       = (res, srv c')"
    by (auto simp: main_step_def split: prod.splits sum.splits)
  from inv PCommit
  have "writes (step_obj x (srv c)) (hsh x)
          (create_commit_op (hsh x) (owner x) (repo_name x) (message x) (tree_sha t) [])"
    by (intro ops_write(4)) (simp_all add: content_inv_def)
  from api_call_changes [OF call this ch] show ?thesis .
next
  case (PUpdate rf cm)
  with st obtain res where
    "api_call x n (update_ref_op (rf\<lparr>ref_sha := commit_sha cm\<rparr>) True) (srv c) = (res, srv c')"
    by (auto simp: main_step_def split: prod.splits sum.splits)
  from api_call_changes [OF this ops_write(5) ch] show ?thesis .
qed (use st ch in \<open>auto simp: main_step_def split: if_splits option.splits prod.splits\<close>)

lemma gor_step_changes:
  assumes st: "gor_step x j n c = Some c'" and inv: "content_inv x c"
    and ch: "fmlookup (repo_objs x (srv c')) k \<noteq> fmlookup (repo_objs x (srv c)) k"
  shows "\<exists>ob. step_obj x (srv c) ob \<and> k = hsh x ob \<and> fmlookup (repo_objs x (srv c')) k = Some ob"
proof (cases "\<exists>p v. gors c ! j = GCreate p v")
  case True
  then obtain p v where g: "gors c ! j = GCreate p v" by blast
  with st have j: "j < length (gors c)" by (auto simp: gor_step_def split: if_splits)
  with st g obtain res where call: "api_call x n (create_blob_op (hsh x) v ''utf-8'') (srv c) = (res, srv c')"
    by (auto simp: gor_step_def split: prod.splits)
  from inv j g have "writes (step_obj x (srv c)) (hsh x) (create_blob_op (hsh x) v ''utf-8'')"
    by (intro ops_write(2) [of x p]) (auto simp: content_inv_def list_all_length)
  from api_call_changes [OF call this ch] show ?thesis .
next
  case False
  with st have "srv c' = srv c"
    by (auto simp: gor_step_def split: if_splits gor.splits mpc.splits option.splits)
  with ch show ?thesis by simp
qed

lemma cmf_step_changes:
  "cmf_step x ch c = Some c' \<Longrightarrow> content_inv x c \<Longrightarrow>
   fmlookup (repo_objs x (srv c')) k \<noteq> fmlookup (repo_objs x (srv c)) k \<Longrightarrow>
   \<exists>ob. step_obj x (srv c) ob \<and> k = hsh x ob \<and> fmlookup (repo_objs x (srv c')) k = Some ob"
  by (cases ch) (auto simp: spawn_step_def split: mpc.splits if_splits
      intro: main_step_changes gor_step_changes)

subsection \<open>Only objects of the snapshot are written\<close>

lemma cmf_step_objs_inv:
  assumes st: "cmf_step x ch c = Some c'" and inv: "content_inv x c" and o: "objs_inv x s0 (srv c)"
  shows "objs_inv x s0 (srv c')"
  unfolding objs_inv_def
proof
  fix k
  show "fmlookup (repo_objs x (srv c')) k = fmlookup (repo_objs x s0) k \<or>
        (\<exists>ob\<in>set (new_objs x). k = hsh x ob \<and> fmlookup (repo_objs x (srv c')) k = Some ob)"
  proof (cases "fmlookup (repo_objs x (srv c')) k = fmlookup (repo_objs x (srv c)) k")
    case True
    with o show ?thesis by (simp add: objs_inv_def)
  next
    case False
    from cmf_step_changes [OF st inv False] show ?thesis by (auto simp: step_obj_def)
  qed
qed

lemma reach_objs_inv: "reach x s0 c \<Longrightarrow> inj (hsh x) \<Longrightarrow> objs_inv x s0 (srv c)"
proof (induction rule: reach.induct)
  case init
  show ?case by (simp add: init_cfg_def objs_inv_def)
next
  case (step c ch c')
  from step.hyps(1) step.prems have "content_inv x c" by (rule reach_content_inv)
  from cmf_step_objs_inv [OF step.hyps(2) this step.IH [OF step.prems]] show ?case .
qed

lemma snapshot_new_objs:
  "snapshot_stored x s \<Longrightarrow> ob \<in> set (new_objs x) \<Longrightarrow> has_obj x s ob"
  by (auto simp: snapshot_stored_def blobs_stored_def new_objs_def fmpred_iff)

text \<open>C16: whatever the schedule and the network, the only objects the program
  writes into its repository are the blobs of the given files, their tree and their
  commit, each stored under its hash: every entry of the object store that differs
  from the store at the call is one of these.\<close>

theorem writes_only_snapshot:
  assumes "reach x s0 c" and "inj (hsh x)"
    and "fmlookup (repo_objs x (srv c)) k \<noteq> fmlookup (repo_objs x s0) k"
  shows "\<exists>ob\<in>set (new_objs x). k = hsh x ob \<and> fmlookup (repo_objs x (srv c)) k = Some ob"
  using reach_objs_inv [OF assms(1,2)] assms(3) by (auto simp: objs_inv_def)

end
