(* ===== verification/Equivalence.thy ===== *)
theory Equivalence
  imports ObjectStore CommitOutput
begin

text \<open>
  The concurrent fan-out computes what the sequential reference computes.  When the
  network serves every request, every schedule of \<open>commitMultipleFiles\<close> that
  returns gives the reference's error, final server and output, however the
  goroutines and the map iteration were interleaved.  The proof follows the
  invariant method of a concurrent fold: the objects written so far are objects of
  the final snapshot, and under a reliable network no step after \<open>GetRef\<close> fails.
  Where the network loses the response to \<open>UpdateRef\<close>, the call and the reference
  part: the call reports an error for an update the server applied.
\<close>

text \<open>The configurations reachable when the network serves every request.\<close>

inductive sreach :: "ctx \<Rightarrow> server \<Rightarrow> cfg \<Rightarrow> bool" for x s0 where
  init: "sreach x s0 (init_cfg s0)"
| step: "sreach x s0 c \<Longrightarrow> served ch \<Longrightarrow> cmf_step x ch c = Some c' \<Longrightarrow> sreach x s0 c'"

text \<open>A goroutine holds no failed result.\<close>

fun gor_served :: "gor \<Rightarrow> bool" where
  "gor_served (GSend r) = (br_err r = None)"
| "gor_served _ = True"

text \<open>Under a reliable network: before \<open>GetRef\<close> the server is untouched; an error
  return is the \<open>GetRef\<close> error of the call's server, with nothing changed and no
  goroutine started; otherwise the credentials were valid at the call and no result
  sent or buffered is a failure.\<close>

definition served_inv :: "ctx \<Rightarrow> server \<Rightarrow> cfg \<Rightarrow> bool" where
  "served_inv x s0 c =
     (case pc c of
        PGetRef \<Rightarrow> srv c = s0
      | PRet (Some e) \<Rightarrow>
          srv c = s0 \<and> gors c = [] \<and>
          (\<exists>e'. e = ErrWrap ''GetRef: '' e' \<and> api_call x Served (get_ref_op (refname x)) s0 = (Inl e', s0))
      | _ \<Rightarrow> api_ok x s0 \<and> list_all gor_served (gors c) \<and> list_all (\<lambda>r. br_err r = None) (buf (results c)))"

text \<open>The calling goroutine is past \<open>GetRef\<close> and has not returned an error.\<close>

definition pc_live :: "mpc \<Rightarrow> bool" where
  "pc_live p \<longleftrightarrow> p \<noteq> PGetRef \<and> (\<forall>e. p \<noteq> PRet (Some e))"

definition results_served :: "cfg \<Rightarrow> bool" where
  "results_served c \<longleftrightarrow>
     list_all gor_served (gors c) \<and> list_all (\<lambda>r. br_err r = None) (buf (results c))"

lemma sreach_reach: "sreach x s0 c \<Longrightarrow> reach x s0 c"
  by (induction rule: sreach.induct) (auto intro: reach.intros)

lemma run_sreach:
  "run x chs c = Some c' \<Longrightarrow> list_all served chs \<Longrightarrow> sreach x s0 c \<Longrightarrow> sreach x s0 c'"
proof (induction chs arbitrary: c)
  case Nil
  then show ?case by simp
next
  case (Cons ch chs)
  then show ?case by (auto split: option.splits intro: sreach.step)
qed

subsection \<open>Under a reliable network nothing fails after GetRef\<close>

lemma api_call_Inr_token: "api_call x n f s = (Inr a, s') \<Longrightarrow> token x \<in> set (tokens s)"
  by (auto simp: api_call_def net_call_def with_repo_def split: net.splits if_splits)

lemma get_ref_keeps_server: "api_call x n (get_ref_op nm) s = (res, s') \<Longrightarrow> s' = s"
proof -
  assume call: "api_call x n (get_ref_op nm) s = (res, s')"
  then have "s' = s \<or> s' = snd (with_repo (token x) (owner x) (repo_name x) (get_ref_op nm) s)"
    unfolding api_call_def by (rule net_call_state)
  moreover have "snd (with_repo (token x) (owner x) (repo_name x) (get_ref_op nm) s) = s"
    using with_repo_state [of "token x" "owner x" "repo_name x" "get_ref_op nm" s]
    by (auto dest!: get_ref_op_Inr simp: fmupd_same)
  ultimately show ?thesis by auto
qed

lemma api_ok_repo:
  "api_ok x s \<Longrightarrow> \<exists>r. repo_of x s = Some r \<and> refname x \<in> fmdom' (refs r)"
  by (auto simp: api_ok_def branch_ref_def fmdom'I split: option.splits)

lemma reach_api_ok:
  assumes "reach x s0 c" and "inj (hsh x)" and "api_ok x s0"
  shows "api_ok x (srv c)"
proof -
  from reach_frame_ok [OF assms(1)] have "tokens (srv c) = tokens s0" by (simp add: frame_ok_def)
  moreover from reach_atomic_inv [OF assms(1,2)] assms(3) have "branch_ref x (srv c) \<noteq> None"
    by (auto simp: atomic_inv_def api_ok_def)
  ultimately show ?thesis using assms(3) by (simp add: api_ok_def)
qed

lemma tree_op_ok:
  assumes "list_all (good_entry x s) es" and "repo_of x s = Some r"
  shows "\<exists>t r'. create_tree_op (hsh x) '''' es r = Inr (t, r')"
proof -
  have "te_type e = ''blob'' \<and> is_blob (objects r) (te_sha e)" if "e \<in> set es" for e
  proof -
    from assms that obtain v where "te_type e = ''blob''" "te_sha e = hsh x (GBlob v)"
      and "fmlookup (objects r) (hsh x (GBlob v)) = Some (GBlob v)"
      by (auto simp: list_all_iff good_entry_def has_obj_def split: option.splits)
    then show ?thesis by (simp add: is_blob_def)
  qed
  then have "list_all (\<lambda>e. te_type e = ''blob'' \<and> is_blob (objects r) (te_sha e)) es"
    by (simp add: list_all_iff)
  then show ?thesis by (simp add: create_tree_op_def base_items_def Let_def)
qed

lemma commit_op_ok:
  assumes "has_obj x s (files_tree x)" and "repo_of x s = Some r"
  shows "\<exists>cm r'. create_commit_op (hsh x) ow rp msg (hsh x (files_tree x)) [] r = Inr (cm, r')"
  using assms by (simp add: has_obj_def create_commit_op_def files_tree_def Let_def)

lemma update_op_ok:
  assumes "has_obj x s (files_commit x)" and "repo_of x s = Some r"
    and "refname x \<in> fmdom' (refs r)" and "ref_name rf = refname x"
  shows "\<exists>a r'. update_ref_op (rf\<lparr>ref_sha := hsh x (files_commit x)\<rparr>) True r = Inr (a, r')"
  using assms by (auto simp: has_obj_def update_ref_op_def is_commit_def files_commit_def fmlookup_dom'_iff
      split: option.splits)

lemma spawn_step_served:
  "spawn_step j c = Some c' \<Longrightarrow> pc_live (pc c) \<Longrightarrow> results_served c \<Longrightarrow>
   pc_live (pc c') \<and> results_served c'"
  by (auto simp: spawn_step_def pc_live_def results_served_def split: mpc.splits if_splits)

lemma gor_step_served:
  assumes st: "gor_step x j Served c = Some c'" and ok: "api_ok x (srv c)"
    and live: "pc_live (pc c)" and rs: "results_served c"
  shows "pc_live (pc c') \<and> results_served c'"
proof -
  from st have j: "j < length (gors c)" by (auto simp: gor_step_def split: if_splits)
  show ?thesis
  proof (cases "gors c ! j")
    case (GCreate p v)
    from api_ok_repo [OF ok] obtain r where r: "repo_of x (srv c) = Some r" by blast
    from ok have tok: "token x \<in> set (tokens (srv c))" by (simp add: api_ok_def)
    have "api_call x Served (create_blob_op (hsh x) v ''utf-8'') (srv c) =
          (Inr (hsh x (GBlob v)), put_repo x (put_object (hsh x) (GBlob v) r) (srv c))"
      by (rule api_call_served [OF tok r]) (simp add: create_blob_op_def)
    with st j GCreate have "gors c' = (gors c)[j := GSend (blob_call_result p (Inr (hsh x (GBlob v))))]"
      and "pc c' = pc c" and "results c' = results c"
      by (auto simp: gor_step_def)
    with live rs show ?thesis
      by (simp add: results_served_def list_all_update blob_call_result_def)
  next
    case (GSend b)
    from rs j GSend have b: "br_err b = None" by (auto simp: results_served_def list_all_length)
    show ?thesis
      using st j GSend b live rs
      by (auto simp: gor_step_def pc_live_def results_served_def receiver_waiting_def collect_result_def
          chan_send_def list_all_update split: if_splits mpc.splits option.splits)
  next
    case GExit
    with st j show ?thesis by (simp add: gor_step_def)
  qed
qed

lemma main_step_served:
  assumes st: "main_step x Served c = Some c'" and inv: "content_inv x c" and ok: "api_ok x (srv c)"
    and live: "pc_live (pc c)" and rs: "results_served c"
  shows "pc_live (pc c') \<and> results_served c'"
proof -
  from api_ok_repo [OF ok] obtain r where r: "repo_of x (srv c) = Some r"
    and dom: "refname x \<in> fmdom' (refs r)" by blast
  from ok have tok: "token x \<in> set (tokens (srv c))" by (simp add: api_ok_def)
  show ?thesis
  proof (cases "pc c")
    case (PCollect rf i es)
    show ?thesis
    proof (cases "i < nfiles x")
      case True
      with st PCollect obtain b ch where recv: "chan_recv (results c) = Some (b, ch)"
        and c': "c' = c\<lparr>results := ch, pc := collect_result rf i es b\<rparr>"
        by (auto simp: main_step_def split: option.splits)
      from recv have "buf (results c) = b # buf ch"
        by (auto simp: chan_recv_def split: list.splits)
      with rs c' show ?thesis
        by (simp add: pc_live_def results_served_def collect_result_def)
    next
      case False
      with st PCollect rs show ?thesis by (auto simp: main_step_def pc_live_def results_served_def)
    qed
  next
    case (PTree rf es)
    from inv PTree have "list_all (good_entry x (srv c)) es" by (simp add: content_inv_def)
    from tree_op_ok [OF this r] obtain t r' where "create_tree_op (hsh x) '''' es r = Inr (t, r')"
      by blast
    from api_call_served [where f = "create_tree_op (hsh x) '''' es", OF tok r this] st PTree rs
    show ?thesis by (auto simp: main_step_def pc_live_def results_served_def)
  next
    case (PCommit rf t)
    from inv PCommit have "tree_sha t = hsh x (files_tree x)" "has_obj x (srv c) (files_tree x)"
      by (simp_all add: content_inv_def)
    with commit_op_ok [OF _ r] obtain cm r' where
      "create_commit_op (hsh x) (owner x) (repo_name x) (message x) (tree_sha t) [] r = Inr (cm, r')"
      by metis
    from api_call_served [where f = "create_commit_op (hsh x) (owner x) (repo_name x) (message x) (tree_sha t) []",
        OF tok r this] st PCommit rs
    show ?thesis by (auto simp: main_step_def pc_live_def results_served_def)
  next
    case (PUpdate rf cm)
    from inv PUpdate have "commit_sha cm = hsh x (files_commit x)" "has_obj x (srv c) (files_commit x)"
      "ref_name rf = refname x"
      by (simp_all add: content_inv_def snapshot_stored_def)
    with update_op_ok [OF _ r dom] obtain a r' where
      "update_ref_op (rf\<lparr>ref_sha := commit_sha cm\<rparr>) True r = Inr (a, r')"
      by metis
    from api_call_served [where f = "update_ref_op (rf\<lparr>ref_sha := commit_sha cm\<rparr>) True",
        OF tok r this] st PUpdate rs
    show ?thesis by (auto simp: main_step_def pc_live_def results_served_def)
  qed (use st live rs in \<open>auto simp: main_step_def pc_live_def results_served_def split: if_splits\<close>)
qed

lemma served_inv_live:
  "pc_live (pc c) \<Longrightarrow> served_inv x s0 c \<longleftrightarrow> api_ok x s0 \<and> results_served c"
  by (cases "pc c") (auto simp: served_inv_def pc_live_def results_served_def split: option.splits)

lemma served_getref_step:
  assumes st: "cmf_step x ch c = Some c'" and sv: "served ch" and p: "pc c = PGetRef"
    and s: "srv c = s0" and g: "gors c = []"
  shows "served_inv x s0 c'"
proof -
  from st p g sv have m: "main_step x Served c = Some c'"
    by (cases ch) (auto simp: spawn_step_def gor_step_def)
  obtain res s' where call: "api_call x Served (get_ref_op (refname x)) s0 = (res, s')"
    by (cases "api_call x Served (get_ref_op (refname x)) s0")
  from call have s': "s' = s0" by (rule get_ref_keeps_server)
  show ?thesis
  proof (cases res)
    case (Inl e)
    with m p s g call s' show ?thesis
      by (auto simp: main_step_def served_inv_def refname_def)
  next
    case (Inr rf)
    from call Inr obtain r r' where "repo_of x s0 = Some r" "get_ref_op (refname x) r = Inr (rf, r')"
      by (blast dest: api_call_Inr)
    moreover from call Inr have "token x \<in> set (tokens s0)" by (blast intro: api_call_Inr_token)
    ultimately have ok: "api_ok x s0"
      by (auto simp: api_ok_def branch_ref_def get_ref_op_def split: option.splits)
    from m p s g call s' Inr have "pc c' = PSpawn rf (sorted_list_of_fmap (files x))"
      and "gors c' = []" and "buf (results c') = []"
      by (auto simp: main_step_def refname_def make_chan_def)
    with ok show ?thesis by (simp add: served_inv_live pc_live_def results_served_def)
  qed
qed

lemma sreach_served_inv: "sreach x s0 c \<Longrightarrow> inj (hsh x) \<Longrightarrow> served_inv x s0 c"
proof (induction rule: sreach.induct)
  case init
  show ?case by (simp add: served_inv_def init_cfg_def)
next
  case (step c ch c')
  have r: "reach x s0 c" by (rule sreach_reach [OF step.hyps(1)])
  have inv: "served_inv x s0 c" by (rule step.IH [OF step.prems])
  from reach_cap_inv [OF r] have g0: "pc c = PGetRef \<Longrightarrow> gors c = []" by (simp add: cap_inv_def)
  consider "pc c = PGetRef" | e where "pc c = PRet (Some e)" | "pc_live (pc c)"
    by (auto simp: pc_live_def)
  then show ?case
  proof cases
    case 1
    with inv g0 show ?thesis
      by (intro served_getref_step [OF step.hyps(3,2)]) (simp_all add: served_inv_def)
  next
    case (2 e)
    with inv have "gors c = []" by (simp add: served_inv_def)
    with 2 step.hyps(3) show ?thesis
      by (cases ch) (auto simp: main_step_def spawn_step_def gor_step_def)
  next
    case 3
    with inv have ok0: "api_ok x s0" and rs: "results_served c" by (simp_all add: served_inv_live)
    have ok: "api_ok x (srv c)" by (rule reach_api_ok [OF r step.prems ok0])
    have ci: "content_inv x c" by (rule reach_content_inv [OF r step.prems])
    have "pc_live (pc c') \<and> results_served c'"
    proof (cases ch)
      case (SMain n)
      with step.hyps(2,3) have "main_step x Served c = Some c'" by simp
      from main_step_served [OF this ci ok 3 rs] show ?thesis .
    next
      case (SSpawn j)
      with step.hyps(3) have "spawn_step j c = Some c'" by simp
      from spawn_step_served [OF this 3 rs] show ?thesis .
    next
      case (SGor j n)
      with step.hyps(2,3) have "gor_step x j Served c = Some c'" by simp
      from gor_step_served [OF this ok 3 rs] show ?thesis .
    qed
    with ok0 show ?thesis by (simp add: served_inv_live)
  qed
qed

subsection \<open>The server after a successful call\<close>

lemma final_objects:
  assumes inj: "inj (hsh x)" and o: "objs_inv x s0 s" and st: "snapshot_stored x s"
    and r0: "repo_of x s0 = Some r0" and r1: "repo_of x s = Some r1"
  shows "objects r1 = objects (fold (put_object (hsh x)) (new_objs x) r0)"
proof (rule fmap_ext)
  fix k
  show "fmlookup (objects r1) k = fmlookup (objects (fold (put_object (hsh x)) (new_objs x) r0)) k"
  proof (cases "k \<in> hsh x ` set (new_objs x)")
    case True
    then obtain ob where ob: "ob \<in> set (new_objs x)" and k: "k = hsh x ob" by blast
    from snapshot_new_objs [OF st ob] r1 have "fmlookup (objects r1) k = Some ob"
      by (simp add: has_obj_def k)
    with fold_put_stores [OF inj ob, of r0] k show ?thesis by simp
  next
    case False
    with o r0 r1 have "fmlookup (objects r1) k = fmlookup (objects r0) k"
      by (auto simp: objs_inv_def repo_objs_def)
    with False show ?thesis by (simp add: fold_put_other)
  qed
qed

text \<open>A server that keeps the frame of \<open>s0\<close> is \<open>s0\<close> with the program's repository
  replaced, and the repository keeps every reference but the branch.\<close>

lemma frame_put_repo:
  assumes "frame_ok x s0 s" and "repo_of x s = Some r1"
  shows "s = put_repo x r1 s0"
proof -
  from assms(1) have tok: "tokens s = tokens s0"
    and other: "fmdrop (owner x, repo_name x) (repos s) = fmdrop (owner x, repo_name x) (repos s0)"
    by (simp_all add: frame_ok_def)
  have "repos s = fmupd (owner x, repo_name x) r1 (repos s0)"
  proof (rule fmap_ext)
    fix k
    show "fmlookup (repos s) k = fmlookup (fmupd (owner x, repo_name x) r1 (repos s0)) k"
    proof (cases "k = (owner x, repo_name x)")
      case True
      with assms(2) show ?thesis by (simp add: repo_of_def)
    next
      case False
      from arg_cong [OF other, of "\<lambda>m. fmlookup m k"] False show ?thesis by simp
    qed
  qed
  with tok show ?thesis by (intro server.equality) simp_all
qed

lemma frame_refs:
  assumes "frame_ok x s0 s" and "repo_of x s0 = Some r0" and "repo_of x s = Some r1"
    and "fmlookup (refs r1) (refname x) = Some v"
  shows "refs r1 = fmupd (refname x) v (refs r0)"
proof (rule fmap_ext)
  fix k
  from assms(1-3) have rd: "fmdrop (refname x) (refs r1) = fmdrop (refname x) (refs r0)"
    by (simp add: frame_ok_def)
  show "fmlookup (refs r1) k = fmlookup (fmupd (refname x) v (refs r0)) k"
  proof (cases "k = refname x")
    case True
    with assms(4) show ?thesis by simp
  next
    case False
    from arg_cong [OF rd, of "\<lambda>m. fmlookup m k"] False show ?thesis by simp
  qed
qed

lemma final_server:
  assumes r: "reach x s0 c" and inj: "inj (hsh x)" and p: "pc c = PRet None"
    and r0: "repo_of x s0 = Some r0"
  shows "srv c = put_repo x (seq_repo x r0) s0"
proof -
  have fr: "frame_ok x s0 (srv c)" by (rule reach_frame_ok [OF r])
  with r0 obtain r1 where r1: "repo_of x (srv c) = Some r1"
    by (auto simp: frame_ok_def)
  from reach_atomic_inv [OF r inj] p have br: "branch_ref x (srv c) = Some (hsh x (files_commit x))"
    and st: "snapshot_stored x (srv c)"
    by (simp_all add: atomic_inv_def)
  have refs: "refs r1 = fmupd (refname x) (hsh x (files_commit x)) (refs r0)"
    using br r1 by (intro frame_refs [OF fr r0 r1]) (simp add: branch_ref_def)
  have objs: "objects r1 = objects (fold (put_object (hsh x)) (new_objs x) r0)"
    by (rule final_objects [OF inj reach_objs_inv [OF r inj] st r0 r1])
  have repo: "r1 = seq_repo x r0"
    by (rule repo.equality) (simp_all add: seq_repo_def objs refs)
  show ?thesis using frame_put_repo [OF fr r1] repo by simp
qed

subsection \<open>Past GetRef the credentials were valid\<close>

lemma cmf_step_getref:
  "cmf_step x ch c = Some c' \<Longrightarrow> pc c' = PGetRef \<Longrightarrow> pc c = PGetRef \<and> gors c \<noteq> []"
  by (cases ch) (auto simp: main_step_def spawn_step_def gor_step_def collect_result_def Let_def
      split: mpc.splits prod.splits sum.splits if_splits option.splits gor.splits)

lemma reach_getref_init: "reach x s0 c \<Longrightarrow> pc c = PGetRef \<Longrightarrow> c = init_cfg s0"
  by (induction rule: reach.induct) (auto simp: init_cfg_def dest: cmf_step_getref)

lemma getref_step_ok:
  assumes "cmf_step x ch (init_cfg s0) = Some c'" and "pc_ref (pc c') \<noteq> None"
  shows "api_ok x s0"
proof -
  from assms obtain n where m: "main_step x n (init_cfg s0) = Some c'"
    by (cases ch) (auto simp: spawn_step_def gor_step_def init_cfg_def)
  with assms(2) obtain rf s' where call: "api_call x n (get_ref_op (refname x)) s0 = (Inr rf, s')"
    by (auto simp: main_step_def init_cfg_def refname_def pc_ref_def split: prod.splits sum.splits)
  from api_call_Inr [OF call] obtain r r' where "repo_of x s0 = Some r"
    and "get_ref_op (refname x) r = Inr (rf, r')" by blast
  moreover from call have "token x \<in> set (tokens s0)" by (rule api_call_Inr_token)
  ultimately show ?thesis
    by (auto simp: api_ok_def branch_ref_def get_ref_op_def split: option.splits)
qed

lemma reach_called_ok: "reach x s0 c \<Longrightarrow> pc_ref (pc c) \<noteq> None \<Longrightarrow> api_ok x s0"
proof (induction rule: reach.induct)
  case init
  then show ?case by (simp add: init_cfg_def pc_ref_def)
next
  case (step c ch c')
  show ?case
  proof (cases "pc c = PGetRef")
    case True
    with step.hyps(1) have "c = init_cfg s0" by (rule reach_getref_init)
    with step.hyps(2) step.prems show ?thesis by (blast intro: getref_step_ok)
  next
    case False
    show ?thesis
    proof (cases "pc_ref (pc c) = None")
      case True
      with False obtain r where "pc c = PRet r" by (cases "pc c") (simp_all add: pc_ref_def)
      with cmf_step_ret_pc [OF step.hyps(2)] step.prems show ?thesis by (simp add: pc_ref_def)
    next
      case False
      then show ?thesis by (rule step.IH)
    qed
  qed
qed

subsection \<open>The properties\<close>

text \<open>C15: under a reliable network, \<open>commitMultipleFiles\<close> is equivalent to its
  sequential reference.  Every schedule of the goroutines and of the range loop that
  returns gives the reference's result, the reference's final server and the
  reference's output (the hash function is assumed collision-free).\<close>

theorem concurrent_equals_sequential:
  assumes "sreach x s0 c" and "inj (hsh x)" and "pc c = PRet r"
  shows "(r, srv c, stdout c) = commit_seq x s0"
proof -
  have re: "reach x s0 c" by (rule sreach_reach [OF assms(1)])
  have si: "served_inv x s0 c" by (rule sreach_served_inv [OF assms(1,2)])
  show ?thesis
  proof (cases r)
    case None
    with si assms(3) have ok: "api_ok x s0" by (simp add: served_inv_live pc_live_def)
    from api_ok_repo [OF ok] obtain r0 where r0: "repo_of x s0 = Some r0" by blast
    from reach_out_inv [OF re assms(2)] assms(3) None
    have "stdout c = [commit_created_line (commit_url_of (owner x) (repo_name x) (hsh x (files_commit x)))]"
      by (simp add: out_inv_def)
    with None final_server [OF re assms(2) _ r0] assms(3) show ?thesis
      by (simp add: commit_seq_ok [OF ok r0 assms(2)])
  next
    case (Some e)
    with si assms(3) obtain e' where "srv c = s0" and "e = ErrWrap ''GetRef: '' e'"
      and "api_call x Served (get_ref_op (refname x)) s0 = (Inl e', s0)"
      by (auto simp: served_inv_def)
    moreover from reach_quiet [OF re] assms(3) Some have "stdout c = []" by simp
    ultimately show ?thesis using Some by (simp add: commit_seq_getref_Inl)
  qed
qed

text \<open>C14: a lost \<open>UpdateRef\<close> response makes the call report an error for an update
  that was applied.  If the response to the forced \<open>UpdateRef\<close> of line 83 is lost,
  the server has already moved the branch, so the call returns
  \<open>UpdateRef: <err>\<close> (and \<open>main\<close> dies with \<open>log.Fatal\<close>) although the branch
  already holds exactly the given files.  This holds in every reachable configuration
  about to call \<open>UpdateRef\<close>, under any earlier schedule and network behaviour (the
  hash function is collision-free).\<close>

theorem update_lost_reports_error:
  assumes r: "reach x s0 c" and inj: "inj (hsh x)" and p: "pc c = PUpdate rf cm"
    and m: "main_step x (Lost e) c = Some c'"
  shows "pc c' = PRet (Some (ErrWrap ''UpdateRef: '' e)) \<and>
    read_branch (srv c') (owner x) (repo_name x) (branch x) = Some (sorted_list_of_fmap (files x))"
proof -
  let ?rf = "rf\<lparr>ref_sha := commit_sha cm\<rparr>"
  have nm: "ref_name rf = refname x"
    using reach_ref_ok [OF r] p by (simp add: ref_ok_def pc_ref_def)
  from reach_content_inv [OF r inj] p have cm: "commit_sha cm = hsh x (files_commit x)"
    and st: "snapshot_stored x (srv c)"
    by (simp_all add: content_inv_def)
  from reach_called_ok [OF r] p have ok: "api_ok x s0" by (simp add: pc_ref_def)
  have tok: "token x \<in> set (tokens (srv c))"
    using reach_frame_ok [OF r] ok by (simp add: frame_ok_def api_ok_def)
  from reach_atomic_inv [OF r inj] ok have "branch_ref x (srv c) \<noteq> None"
    by (auto simp: atomic_inv_def api_ok_def)
  then obtain r1 where r1: "repo_of x (srv c) = Some r1" and dom: "refname x \<in> fmdom' (refs r1)"
    by (auto simp: branch_ref_def fmdom'I split: option.splits)
  from st have "has_obj x (srv c) (files_commit x)" by (simp add: snapshot_stored_def)
  from update_op_ok [OF this r1 dom nm] obtain a r' where
    upd: "update_ref_op ?rf True r1 = Inr (a, r')" by (auto simp: cm)
  then have r': "r' = r1\<lparr>refs := fmupd (refname x) (hsh x (files_commit x)) (refs r1)\<rparr>"
    by (auto dest!: update_ref_op_Inr simp: nm cm)
  have c': "c' = c\<lparr>srv := put_repo x r' (srv c), pc := PRet (Some (ErrWrap ''UpdateRef: '' e))\<rparr>"
    using m p tok r1 upd
    by (simp add: main_step_def api_call_def net_call_def with_repo_def repo_of_def)
  have "branch_ref x (srv c') = Some (hsh x (files_commit x))"
    by (simp add: c' r' branch_ref_def repo_of_def)
  moreover have "snapshot_stored x (srv c')"
    using st r1 by (simp add: c' r' snapshot_stored_def blobs_stored_def has_obj_def repo_of_def)
  ultimately show ?thesis by (simp add: c' snapshot_read_branch)
qed

end
