(* ===== verification/Requests.thy ===== *)
theory Requests
  imports CommitFrame
begin

text \<open>
  The requests \<open>commitMultipleFiles\<close> sends to the API, as a trace of events in the
  order the scheduler makes them (the trace-based view of a protocol run).  A step
  sends a request when it reaches a client call: \<open>GetRef\<close>, a goroutine's
  \<open>CreateBlob\<close>, \<open>CreateTree\<close>, \<open>CreateCommit\<close> and \<open>UpdateRef\<close>.  The request is
  sent whatever the network then does with it.  The theorems show the trace has the
  shape the spec announces: \<open>GetRef\<close>, then the blobs, each file at most once, then
  tree, commit and reference update, with exactly one blob per file on success; and
  that a returned error is wrapped with the name of the last request sent.
\<close>

datatype api_req = ReqGetRef | ReqBlob path | ReqTree | ReqCommit | ReqUpdate

text \<open>The request a step sends, if any.\<close>

definition step_req :: "sched \<Rightarrow> cfg \<Rightarrow> api_req option" where
  "step_req ch c =
     (case ch of
        SMain n \<Rightarrow>
          (case pc c of
             PGetRef \<Rightarrow> Some ReqGetRef
           | PTree rf es \<Rightarrow> Some ReqTree
           | PCommit rf t \<Rightarrow> Some ReqCommit
           | PUpdate rf cm \<Rightarrow> Some ReqUpdate
           | _ \<Rightarrow> None)
      | SSpawn j \<Rightarrow> None
      | SGor j n \<Rightarrow>
          (if j < length (gors c) then (case gors c ! j of GCreate p v \<Rightarrow> Some (ReqBlob p) | _ \<Rightarrow> None)
           else None))"

text \<open>The requests sent along a schedule, up to the first step that is not enabled.\<close>

fun trace :: "ctx \<Rightarrow> sched list \<Rightarrow> cfg \<Rightarrow> api_req list" where
  "trace x [] c = []"
| "trace x (ch # chs) c =
     (case cmf_step x ch c of
        None \<Rightarrow> []
      | Some c' \<Rightarrow> (case step_req ch c of None \<Rightarrow> [] | Some q \<Rightarrow> [q]) @ trace x chs c')"

text \<open>How many of the last three requests (tree, commit, reference) a program point
  has sent.\<close>

definition tail_len :: "mpc \<Rightarrow> nat" where
  "tail_len p =
     (case p of
        PCommit rf t \<Rightarrow> 1
      | PUpdate rf cm \<Rightarrow> 2
      | PRet None \<Rightarrow> 3
      | PRet (Some (ErrWrap q e)) \<Rightarrow>
          (if q = ''CreateTree: '' then 1 else if q = ''CreateCommit: '' then 2
           else if q = ''UpdateRef: '' then 3 else 0)
      | _ \<Rightarrow> 0)"

definition req_tail :: "mpc \<Rightarrow> api_req list" where
  "req_tail p = take (tail_len p) [ReqTree, ReqCommit, ReqUpdate]"

text \<open>The function returned the \<open>GetRef\<close> error.\<close>

definition getref_failed :: "mpc \<Rightarrow> bool" where
  "getref_failed p = (case p of PRet (Some (ErrWrap q e)) \<Rightarrow> q = ''GetRef: '' | _ \<Rightarrow> False)"

text \<open>The program point is past the collect loop.\<close>

definition past_collect :: "mpc \<Rightarrow> bool" where
  "past_collect p = (case p of PTree rf es \<Rightarrow> True | _ \<Rightarrow> 0 < tail_len p)"

fun create_path :: "gor \<Rightarrow> path list" where
  "create_path (GCreate p v) = [p]"
| "create_path _ = []"

text \<open>The files whose blob request is still to be sent: by goroutines started and by
  the range loop.\<close>

definition pending :: "cfg \<Rightarrow> path list" where
  "pending c =
     concat (map create_path (gors c)) @ (case pc c of PSpawn rf kvs \<Rightarrow> map fst kvs | _ \<Rightarrow> [])"

definition req_inv :: "ctx \<Rightarrow> cfg \<Rightarrow> api_req list \<Rightarrow> bool" where
  "req_inv x c tr \<longleftrightarrow>
     (if pc c = PGetRef then tr = [] \<and> gors c = []
      else \<exists>bs. tr = ReqGetRef # map ReqBlob bs @ req_tail (pc c) \<and>
        (if getref_failed (pc c) then bs = [] \<and> gors c = []
         else mset bs + mset (pending c) = mset (all_paths x)) \<and>
        (past_collect (pc c) \<longrightarrow> pending c = []))"

subsection \<open>Every step keeps the request invariant\<close>

lemma tail_len_simps [simp]:
  "tail_len PGetRef = 0" "tail_len (PSpawn rf kvs) = 0" "tail_len (PCollect rf i es) = 0"
  "tail_len (PTree rf es) = 0" "tail_len (PCommit rf t) = 1" "tail_len (PUpdate rf cm) = 2"
  "tail_len (PRet None) = 3" "tail_len (PRet (Some (ErrWrap ''GetRef: '' e))) = 0"
  "tail_len (PRet (Some (ErrWrap ''CreateTree: '' e))) = 1"
  "tail_len (PRet (Some (ErrWrap ''CreateCommit: '' e))) = 2"
  "tail_len (PRet (Some (ErrWrap ''UpdateRef: '' e))) = 3"
  by (simp_all add: tail_len_def)

lemma req_tail_not_past: "\<not> past_collect p \<Longrightarrow> req_tail p = []"
  by (simp add: past_collect_def req_tail_def split: mpc.splits)

lemma create_paths_inactive:
  "sum_list (map live gs) = 0 \<Longrightarrow> concat (map create_path gs) = []"
proof (induction gs)
  case (Cons g gs)
  then show ?case by (cases g) simp_all
qed simp

lemma concat_map_update_same:
  "f (xs ! j) = f y \<Longrightarrow> concat (map f (xs[j := y])) = concat (map f xs)"
  by (induction xs arbitrary: j) (auto split: nat.splits)

lemma collect_result_req:
  "pc' = collect_result rf i es r \<Longrightarrow>
   req_tail pc' = [] \<and> \<not> getref_failed pc' \<and> \<not> past_collect pc' \<and> pc' \<noteq> PGetRef"
  unfolding collect_result_def
  by (cases "br_err r") (simp_all add: req_tail_def tail_len_def getref_failed_def past_collect_def)

lemma spawn_step_req_inv:
  assumes st: "spawn_step j c = Some c'" and inv: "req_inv x c tr"
  shows "req_inv x c' tr"
proof -
  from st obtain rf kvs where p: "pc c = PSpawn rf kvs" and j: "j < length kvs"
    and c': "c' = c\<lparr>gors := gors c @ [GCreate (fst (kvs ! j)) (snd (kvs ! j))], pc := PSpawn rf (del_at j kvs)\<rparr>"
    by (auto simp: spawn_step_def split: mpc.splits if_splits)
  from arg_cong [OF mset_del_at [OF j], of "image_mset fst"]
  have "mset (map fst (del_at j kvs)) + {#fst (kvs ! j)#} = mset (map fst kvs)"
    by simp
  then have "mset (pending c') = mset (pending c)"
    by (simp add: pending_def c' p)
  with inv p show ?thesis
    by (simp add: req_inv_def c' getref_failed_def past_collect_def req_tail_def)
qed

lemma gor_step_req_inv:
  assumes st: "gor_step x j n c = Some c'" and inv: "req_inv x c tr"
  shows "req_inv x c' (tr @ (case step_req (SGor j n) c of None \<Rightarrow> [] | Some q \<Rightarrow> [q]))"
proof -
  from st have j: "j < length (gors c)" by (auto simp: gor_step_def split: if_splits)
  then have ne: "gors c \<noteq> []" by auto
  with inv have p0: "pc c \<noteq> PGetRef" and nf: "\<not> getref_failed (pc c)"
    by (auto simp: req_inv_def split: if_splits)
  from inv p0 nf obtain bs where tr: "tr = ReqGetRef # map ReqBlob bs @ req_tail (pc c)"
    and ms: "mset bs + mset (pending c) = mset (all_paths x)"
    and pc0: "past_collect (pc c) \<longrightarrow> pending c = []"
    by (auto simp: req_inv_def)
  have upd: "mset (concat (map create_path ((gors c)[j := g]))) + mset (create_path (gors c ! j)) =
             mset (concat (map create_path (gors c))) + mset (create_path g)" for g
    by (rule mset_concat_map_update [OF j])
  show ?thesis
  proof (cases "gors c ! j")
    case (GCreate p v)
    from nth_mem [OF j] GCreate have "GCreate p v \<in> set (gors c)" by simp
    then have "p \<in> set (pending c)" by (force simp: pending_def)
    with pc0 have np: "\<not> past_collect (pc c)" by auto
    from st j GCreate obtain r where c': "c' = c\<lparr>srv := srv c', gors := (gors c)[j := GSend r]\<rparr>"
      by (auto simp: gor_step_def split: prod.splits)
    have "mset (pending c') + {#p#} = mset (pending c)"
      using upd [of "GSend r"] GCreate by (subst c', simp add: pending_def)
    with ms have "mset (bs @ [p]) + mset (pending c') = mset (all_paths x)"
      by (metis add_mset_add_single mset_append mset_single_iff_right union_assoc union_commute)
    moreover have "pc c' = pc c" by (subst c', simp)
    ultimately show ?thesis
      using tr np nf p0 j GCreate req_tail_not_past [OF np]
      by (auto simp: req_inv_def step_req_def intro!: exI [of _ "bs @ [p]"])
  next
    case (GSend r)
    have sr: "step_req (SGor j n) c = None" using j GSend by (simp add: step_req_def)
    from st j GSend consider
        (hand) rf i es where "pc c = PCollect rf i es"
          "c' = c\<lparr>gors := (gors c)[j := GExit], pc := collect_result rf i es r\<rparr>"
      | (buf) ch where "c' = c\<lparr>results := ch, gors := (gors c)[j := GExit]\<rparr>"
      by (auto simp: gor_step_def split: if_splits mpc.splits option.splits)
    then show ?thesis
    proof cases
      case hand
      have pe: "mset (pending c') = mset (pending c)"
        using upd [of GExit] GSend hand
        by (simp add: pending_def collect_result_def split: option.splits)
      from collect_result_req [OF refl, of rf i es r] hand(2)
      have "req_tail (pc c') = [] \<and> \<not> getref_failed (pc c') \<and> \<not> past_collect (pc c') \<and> pc c' \<noteq> PGetRef"
        by simp
      with tr ms pe hand(1) sr show ?thesis
        by (auto simp: req_inv_def req_tail_def)
    next
      case buf
      have "pending c' = pending c"
        using concat_map_update_same [of create_path "gors c" j GExit] GSend buf
        by (simp add: pending_def)
      moreover have "pc c' = pc c" using buf by simp
      ultimately show ?thesis using tr ms pc0 p0 nf sr by (auto simp: req_inv_def)
    qed
  next
    case GExit
    with st j show ?thesis by (simp add: gor_step_def)
  qed
qed

lemma main_step_req_inv:
  assumes st: "main_step x n c = Some c'" and cap: "cap_inv x c" and inv: "req_inv x c tr"
  shows "req_inv x c' (tr @ (case step_req (SMain n) c of None \<Rightarrow> [] | Some q \<Rightarrow> [q]))"
proof (cases "pc c")
  case PGetRef
  with inv have tr: "tr = []" and g: "gors c = []" by (simp_all add: req_inv_def)
  have pend: "pending (c\<lparr>srv := s', results := ch, pc := PSpawn rf (sorted_list_of_fmap (files x))\<rparr>) =
              all_paths x" for s' ch rf
    by (simp add: pending_def g all_paths_def)
  from st PGetRef tr g pend show ?thesis
    by (auto simp: main_step_def req_inv_def step_req_def getref_failed_def past_collect_def
        req_tail_def split: prod.splits sum.splits)
next
  case (PSpawn rf kvs)
  with st have kvs: "kvs = []" and c': "c' = c\<lparr>pc := PCollect rf 0 []\<rparr>"
    by (auto simp: main_step_def split: if_splits)
  have "pending c' = pending c" by (simp add: pending_def c' PSpawn kvs)
  with inv PSpawn show ?thesis
    by (auto simp: req_inv_def c' step_req_def getref_failed_def past_collect_def req_tail_def)
next
  case (PCollect rf i es)
  from inv PCollect obtain bs where tr: "tr = ReqGetRef # map ReqBlob bs"
    and ms: "mset bs + mset (pending c) = mset (all_paths x)"
    by (auto simp: req_inv_def getref_failed_def req_tail_def)
  have sr: "step_req (SMain n) c = None" by (simp add: step_req_def PCollect)
  show ?thesis
  proof (cases "i < nfiles x")
    case True
    with st PCollect obtain r ch where c': "c' = c\<lparr>results := ch, pc := collect_result rf i es r\<rparr>"
      by (auto simp: main_step_def split: option.splits)
    have "pending c' = pending c"
      by (simp add: pending_def c' PCollect collect_result_def split: option.splits)
    with collect_result_req [OF refl, of rf i es r] tr ms sr show ?thesis
      by (auto simp: req_inv_def c' req_tail_def)
  next
    case False
    with st PCollect have c': "c' = c\<lparr>pc := PTree rf es\<rparr>" by (simp add: main_step_def)
    from cap PCollect False have "active_count c = 0" by (simp add: cap_inv_def)
    then have "pending c' = []"
      by (simp add: pending_def c' active_count_def create_paths_inactive)
    moreover from ms have "mset bs + mset (pending c') = mset (all_paths x)"
      by (simp add: pending_def c' PCollect)
    ultimately show ?thesis using tr sr
      by (auto simp: req_inv_def c' getref_failed_def past_collect_def req_tail_def)
  qed
next
  case (PTree rf es)
  from inv PTree obtain bs where tr: "tr = ReqGetRef # map ReqBlob bs"
    and ms: "mset bs + mset (pending c) = mset (all_paths x)" and pe: "pending c = []"
    by (auto simp: req_inv_def getref_failed_def req_tail_def past_collect_def)
  from st PTree obtain e' t s' where "c' = c\<lparr>srv := s', pc := PRet (Some (ErrWrap ''CreateTree: '' e'))\<rparr> \<or>
      c' = c\<lparr>srv := s', pc := PCommit rf t\<rparr>"
    by (auto simp: main_step_def split: prod.splits sum.splits)
  with tr ms pe PTree show ?thesis
    by (auto simp: req_inv_def step_req_def getref_failed_def past_collect_def req_tail_def pending_def)
next
  case (PCommit rf t)
  from inv PCommit obtain bs where tr: "tr = ReqGetRef # map ReqBlob bs @ [ReqTree]"
    and ms: "mset bs + mset (pending c) = mset (all_paths x)" and pe: "pending c = []"
    by (auto simp: req_inv_def getref_failed_def req_tail_def past_collect_def)
  from st PCommit obtain e' cm s' where
    "c' = c\<lparr>srv := s', pc := PRet (Some (ErrWrap ''CreateCommit: '' e'))\<rparr> \<or>
     c' = c\<lparr>srv := s', pc := PUpdate rf cm\<rparr>"
    by (auto simp: main_step_def split: prod.splits sum.splits)
  with tr ms pe PCommit show ?thesis
    by (auto simp: req_inv_def step_req_def getref_failed_def past_collect_def req_tail_def pending_def)
next
  case (PUpdate rf cm)
  from inv PUpdate obtain bs where tr: "tr = ReqGetRef # map ReqBlob bs @ [ReqTree, ReqCommit]"
    and ms: "mset bs + mset (pending c) = mset (all_paths x)" and pe: "pending c = []"
    by (auto simp: req_inv_def getref_failed_def req_tail_def past_collect_def)
  from st PUpdate obtain e' s' ln where
    "c' = c\<lparr>srv := s', pc := PRet (Some (ErrWrap ''UpdateRef: '' e'))\<rparr> \<or>
     c' = c\<lparr>srv := s', stdout := ln, pc := PRet None\<rparr>"
    by (auto simp: main_step_def split: prod.splits sum.splits)
  with tr ms pe PUpdate show ?thesis
    by (auto simp: req_inv_def step_req_def getref_failed_def past_collect_def req_tail_def pending_def)
next
  case (PRet r)
  with st show ?thesis by (simp add: main_step_def)
qed

lemma cmf_step_req_inv:
  "cmf_step x ch c = Some c' \<Longrightarrow> cap_inv x c \<Longrightarrow> req_inv x c tr \<Longrightarrow>
   req_inv x c' (tr @ (case step_req ch c of None \<Rightarrow> [] | Some q \<Rightarrow> [q]))"
proof (cases ch)
  case (SMain n)
  then show "cmf_step x ch c = Some c' \<Longrightarrow> cap_inv x c \<Longrightarrow> req_inv x c tr \<Longrightarrow> ?thesis"
    by (simp add: main_step_req_inv)
next
  case (SSpawn j)
  then show "cmf_step x ch c = Some c' \<Longrightarrow> cap_inv x c \<Longrightarrow> req_inv x c tr \<Longrightarrow> ?thesis"
    by (simp add: step_req_def spawn_step_req_inv)
next
  case (SGor j n)
  then show "cmf_step x ch c = Some c' \<Longrightarrow> cap_inv x c \<Longrightarrow> req_inv x c tr \<Longrightarrow> ?thesis"
    by (simp add: gor_step_req_inv)
qed

lemma run_req_inv:
  "run x chs c = Some c' \<Longrightarrow> reach x s0 c \<Longrightarrow> req_inv x c tr \<Longrightarrow> req_inv x c' (tr @ trace x chs c)"
proof (induction chs arbitrary: c tr)
  case Nil
  then show ?case by simp
next
  case (Cons ch chs)
  from Cons.prems(1) obtain c1 where st: "cmf_step x ch c = Some c1" and r: "run x chs c1 = Some c'"
    by (auto split: option.splits)
  have "req_inv x c1 (tr @ (case step_req ch c of None \<Rightarrow> [] | Some q \<Rightarrow> [q]))"
    by (rule cmf_step_req_inv [OF st reach_cap_inv [OF Cons.prems(2)] Cons.prems(3)])
  from Cons.IH [OF r reach.step [OF Cons.prems(2) st] this] st show ?case by simp
qed

lemma run_init_req_inv:
  "run x chs (init_cfg s) = Some c \<Longrightarrow> req_inv x c (trace x chs (init_cfg s))"
proof -
  assume r: "run x chs (init_cfg s) = Some c"
  have "req_inv x (init_cfg s) []" by (simp add: req_inv_def init_cfg_def)
  from run_req_inv [OF r reach.init this] show ?thesis by simp
qed

lemma length_all_paths: "length (all_paths x) = nfiles x"
  by (simp add: all_paths_def nfiles_def)

lemma req_inv_shape:
  assumes "req_inv x c tr" and "pc c \<noteq> PGetRef"
  obtains bs where "tr = ReqGetRef # map ReqBlob bs @ take (tail_len (pc c)) [ReqTree, ReqCommit, ReqUpdate]"
    and "mset bs \<subseteq># mset (all_paths x)"
proof -
  from assms obtain bs where tr: "tr = ReqGetRef # map ReqBlob bs @ req_tail (pc c)"
    and "getref_failed (pc c) \<and> bs = [] \<or> mset bs + mset (pending c) = mset (all_paths x)"
    by (auto simp: req_inv_def split: if_splits)
  then have "mset bs \<subseteq># mset (all_paths x)" by (metis mset.simps(1) mset_subset_eq_add_left empty_le)
  with tr that show ?thesis by (simp add: req_tail_def)
qed

subsection \<open>The properties\<close>

text \<open>C20: whatever the schedule and the network, the requests follow the order of
  the spec: nothing, or \<open>GetRef\<close> first, then blob requests, each for a different
  given file, then a prefix of \<open>CreateTree\<close>, \<open>CreateCommit\<close>, \<open>UpdateRef\<close>.  No
  blob is requested after the tree, and no request is repeated.\<close>

theorem requests_in_order:
  assumes "run x chs (init_cfg s) = Some c"
  shows "trace x chs (init_cfg s) = [] \<or>
    (\<exists>bs k. trace x chs (init_cfg s) = ReqGetRef # map ReqBlob bs @ take k [ReqTree, ReqCommit, ReqUpdate] \<and>
            mset bs \<subseteq># mset (all_paths x))"
proof (cases "pc c = PGetRef")
  case True
  with run_init_req_inv [OF assms] show ?thesis by (simp add: req_inv_def)
next
  case False
  from req_inv_shape [OF run_init_req_inv [OF assms] False] show ?thesis by blast
qed

text \<open>C6: a returned error names the request that failed.  Whatever the schedule and
  the network, when \<open>commitMultipleFiles\<close> returns an error its \<open>fmt.Errorf\<close> prefix
  is that of the last request the caller made: \<open>GetRef: \<close> after \<open>GetRef\<close> alone,
  \<open>blob error for <p>: \<close> after blob requests only, and \<open>CreateTree: \<close>,
  \<open>CreateCommit: \<close> or \<open>UpdateRef: \<close> when that call is the last request sent.\<close>

theorem returned_error_names_request:
  assumes "run x chs (init_cfg s) = Some c" and "pc c = PRet (Some e)"
  shows "(\<exists>e'. e = ErrWrap ''GetRef: '' e' \<and> trace x chs (init_cfg s) = [ReqGetRef]) \<or>
    (\<exists>q e' bs. e = ErrWrap (''blob error for '' @ q @ '': '') e' \<and>
       trace x chs (init_cfg s) = ReqGetRef # map ReqBlob bs) \<or>
    (\<exists>e' bs. e = ErrWrap ''CreateTree: '' e' \<and>
       trace x chs (init_cfg s) = ReqGetRef # map ReqBlob bs @ [ReqTree]) \<or>
    (\<exists>e' bs. e = ErrWrap ''CreateCommit: '' e' \<and>
       trace x chs (init_cfg s) = ReqGetRef # map ReqBlob bs @ [ReqTree, ReqCommit]) \<or>
    (\<exists>e' bs. e = ErrWrap ''UpdateRef: '' e' \<and>
       trace x chs (init_cfg s) = ReqGetRef # map ReqBlob bs @ [ReqTree, ReqCommit, ReqUpdate])"
proof -
  from reach_ret_ok [OF run_reach [OF assms(1) reach.init]] assms(2) obtain p e' where
    e: "e = ErrWrap p e'" and sp: "step_prefix p" by (auto simp: ret_ok_def)
  from run_init_req_inv [OF assms(1)] assms(2) obtain bs where
    tr: "trace x chs (init_cfg s) = ReqGetRef # map ReqBlob bs @ req_tail (pc c)"
    and g: "getref_failed (pc c) \<Longrightarrow> bs = []"
    by (auto simp: req_inv_def split: if_splits)
  have pc: "pc c = PRet (Some (ErrWrap p e'))" using assms(2) e by simp
  from step_prefix_cases [OF sp]
  consider "p = ''GetRef: ''" | "p = ''CreateTree: ''" | "p = ''CreateCommit: ''" | "p = ''UpdateRef: ''"
    | q where "p = ''blob error for '' @ q @ '': ''"
    by blast
  then show ?thesis
  proof cases
    case 1
    with pc g have "bs = []" by (simp add: getref_failed_def)
    with 1 tr pc e show ?thesis by (simp add: req_tail_def)
  next
    case 2
    with tr pc e show ?thesis by (simp add: req_tail_def) blast
  next
    case 3
    with tr pc e show ?thesis by (simp add: req_tail_def) blast
  next
    case 4
    with tr pc e show ?thesis by (simp add: req_tail_def) blast
  next
    case (5 q)
    with tr pc e show ?thesis by (simp add: req_tail_def tail_len_def) blast
  qed
qed

text \<open>C21: a call that returns \<open>nil\<close> has sent exactly the spec's requests:
  \<open>GetRef\<close>, one \<open>CreateBlob\<close> for each given file (in the order the goroutines ran),
  \<open>CreateTree\<close>, \<open>CreateCommit\<close> and \<open>UpdateRef\<close>, that is \<open>len(files) + 4\<close>
  requests.\<close>

theorem success_requests:
  assumes "run x chs (init_cfg s) = Some c" and "pc c = PRet None"
  shows "\<exists>bs. trace x chs (init_cfg s) = ReqGetRef # map ReqBlob bs @ [ReqTree, ReqCommit, ReqUpdate] \<and>
    mset bs = mset (all_paths x)"
proof -
  from run_init_req_inv [OF assms(1)] assms(2) obtain bs where
    "trace x chs (init_cfg s) = ReqGetRef # map ReqBlob bs @ [ReqTree, ReqCommit, ReqUpdate]"
    "mset bs + mset (pending c) = mset (all_paths x)" "pending c = []"
    by (auto simp: req_inv_def req_tail_def getref_failed_def past_collect_def)
  then show ?thesis by auto
qed

end
