(* ===== verification/Scenarios.thy ===== *)
theory Scenarios
  imports GoMain Equivalence Requests
begin

text \<open>
  Concrete runs of the program on its own inputs: the one local file \<open>main.go\<close>,
  the hard-coded owner, repository, branch and message of \<open>main\<close>, a server on which
  the branch exists, and four schedules (a successful run, a run stopped while the
  blob goroutine is about to send, a run whose \<open>GetRef\<close> request is dropped, and a
  run whose \<open>UpdateRef\<close> response is lost).
  \<open>demo_hash\<close> is a collision-free stand-in for SHA-1.  Everything here is
  evaluated by the simplifier; the witnesses of the development's theorems use these
  runs.
\<close>

definition demo_hash :: hashfn where
  "demo_hash ob = replicate (to_nat ob) CHR ''0''"

definition demo_token :: string where "demo_token = ''ghp_demo''"

definition demo_env :: "(string, string) fmap" where
  "demo_env = fmupd ''GITHUB_TOKEN'' demo_token fmempty"

definition demo_fs :: "(string, string) fmap" where
  "demo_fs = fmupd ''main.go'' ''package main'' fmempty"

definition demo_server :: server where
  "demo_server =
     \<lparr>repos = fmupd (main_owner, main_repo)
                \<lparr>objects = fmempty, refs = fmupd ''refs/heads/main'' ''c0'' fmempty\<rparr> fmempty,
      tokens = [demo_token]\<rparr>"

definition demo_ctx :: ctx where
  "demo_ctx = \<lparr>hsh = demo_hash, token = demo_token, owner = main_owner, repo_name = main_repo,
               branch = main_branch, files = fmupd ''main.go'' ''package main'' fmempty,
               message = main_commit_message\<rparr>"

definition demo_schedule :: "sched list" where
  "demo_schedule = [SMain Served, SSpawn 0, SMain Served, SGor 0 Served, SGor 0 Served,
                    SMain Served, SMain Served, SMain Served, SMain Served]"

definition demo_final :: cfg where
  "demo_final = the (run demo_ctx demo_schedule (init_cfg demo_server))"

definition demo_sending :: cfg where
  "demo_sending = the (run demo_ctx (take 4 demo_schedule) (init_cfg demo_server))"

definition demo_net_error :: goerr where
  "demo_net_error = ErrString ''read: connection reset by peer''"

definition demo_failed :: cfg where
  "demo_failed = the (run demo_ctx [SMain (Dropped demo_net_error)] (init_cfg demo_server))"

definition demo_timeout :: goerr where
  "demo_timeout = ErrString ''context deadline exceeded''"

definition demo_lost_schedule :: "sched list" where
  "demo_lost_schedule = take 8 demo_schedule @ [SMain (Lost demo_timeout)]"

definition demo_lost :: cfg where
  "demo_lost = the (run demo_ctx demo_lost_schedule (init_cfg demo_server))"

text \<open>The configuration just before the \<open>UpdateRef\<close> call of that run.\<close>

definition demo_updating :: cfg where
  "demo_updating = the (run demo_ctx (take 8 demo_schedule) (init_cfg demo_server))"

definition demo_spawned :: cfg where
  "demo_spawned = the (main_step demo_ctx Served (init_cfg demo_server))"

definition demo_result :: blob_result where
  "demo_result = \<lparr>br_path = ''main.go'', br_sha = demo_hash (GBlob ''package main''), br_err = None\<rparr>"

lemmas demo_simps [model_simps] =
  demo_hash_def demo_token_def demo_env_def demo_fs_def demo_server_def demo_ctx_def
  demo_schedule_def demo_net_error_def main_owner_def main_repo_def main_branch_def
  main_commit_message_def local_files_def getenv_def main_setup_def

lemma inj_demo_hash: "inj demo_hash"
  by (auto simp: inj_def demo_hash_def)

lemma demo_run:
  "run demo_ctx demo_schedule (init_cfg demo_server) = Some demo_final"
  unfolding demo_final_def by (simp add: model_simps Let_def)


lemma demo_final_fields: "pc demo_final = PRet None" "gors demo_final = [GExit]"
  by (simp_all add: demo_final_def model_simps Let_def)

lemma demo_reach_final: "reach demo_ctx demo_server demo_final"
  by (rule run_reach [OF demo_run reach.init])

lemma demo_sending_run:
  "run demo_ctx (take 4 demo_schedule) (init_cfg demo_server) = Some demo_sending"
  unfolding demo_sending_def by (simp add: model_simps Let_def)

lemma demo_sending_fields: "gors demo_sending = [GSend demo_result]"
  by (simp add: demo_sending_def demo_result_def model_simps Let_def)

lemma demo_failed_run:
  "run demo_ctx [SMain (Dropped demo_net_error)] (init_cfg demo_server) = Some demo_failed"
  unfolding demo_failed_def by (simp add: model_simps Let_def)

lemma demo_failed_fields: "pc demo_failed = PRet (Some (ErrWrap ''GetRef: '' demo_net_error))"
  by (simp add: demo_failed_def model_simps Let_def)

lemma demo_updating_run:
  "run demo_ctx (take 8 demo_schedule) (init_cfg demo_server) = Some demo_updating"
  unfolding demo_updating_def by (simp add: model_simps Let_def)

lemma demo_updating_pc: "\<exists>rf cm. pc demo_updating = PUpdate rf cm"
  unfolding demo_updating_def by (simp add: model_simps Let_def)

lemma demo_updating_lost: "main_step demo_ctx (Lost demo_timeout) demo_updating = Some demo_lost"
  unfolding demo_updating_def demo_lost_def
  by (simp add: demo_lost_schedule_def demo_timeout_def model_simps Let_def)

lemma demo_lost_run: "run demo_ctx demo_lost_schedule (init_cfg demo_server) = Some demo_lost"
  unfolding demo_lost_def by (simp add: demo_lost_schedule_def demo_timeout_def model_simps Let_def)

lemma demo_lost_pc: "pc demo_lost = PRet (Some (ErrWrap ''UpdateRef: '' demo_timeout))"
  unfolding demo_lost_def by (simp add: demo_lost_schedule_def demo_timeout_def model_simps Let_def)

lemma demo_final_quiescent: "cmf_step demo_ctx ch demo_final = None"
proof (cases ch)
  case (SGor j n)
  then show ?thesis
    by (cases j) (simp_all add: gor_step_def demo_final_fields)
qed (simp_all add: main_step_def spawn_step_def demo_final_fields)

lemma demo_setup: "main_setup demo_hash demo_env demo_fs = Inr demo_ctx"
  by (simp add: model_simps Let_def)

lemma demo_main_ok:
  "main_run demo_hash demo_env demo_fs demo_server d ExitOk (srv demo_final)
     (stdout demo_final @ [timing_line d])"
  by (rule main_run.commit_ok [OF demo_setup demo_reach_final demo_final_fields(1)])

lemma demo_main_failed:
  "main_run demo_hash demo_env demo_fs demo_server d
     (ExitFatal (''Failed to upsert files: '' @ err_msg (ErrWrap ''GetRef: '' demo_net_error)))
     (srv demo_failed) (stdout demo_failed)"
  by (rule main_run.commit_fatal [OF demo_setup run_reach [OF demo_failed_run reach.init] demo_failed_fields])

lemma demo_final_stdout:
  "stdout demo_final =
     [commit_created_line (commit_url_of main_owner main_repo (demo_hash (files_commit demo_ctx)))]"
  by (simp add: demo_final_def model_simps Let_def files_commit_def files_tree_def file_item_def)

lemma demo_trace:
  "trace demo_ctx demo_schedule (init_cfg demo_server) =
     [ReqGetRef, ReqBlob ''main.go'', ReqTree, ReqCommit, ReqUpdate]"
  by (simp add: model_simps step_req_def Let_def)

subsection \<open>Witnesses\<close>

theorem commit_success_branch_witness:
  "reach demo_ctx demo_server demo_final \<and> inj (hsh demo_ctx) \<and> pc demo_final = PRet None \<and>
   read_branch (srv demo_final) main_owner main_repo main_branch = Some [(''main.go'', ''package main'')]"
proof -
  have i: "inj (hsh demo_ctx)" by (simp add: demo_ctx_def inj_demo_hash)
  from commit_success_branch [OF demo_reach_final i demo_final_fields(1)]
  have "read_branch (srv demo_final) (owner demo_ctx) (repo_name demo_ctx) (branch demo_ctx) =
        Some (sorted_list_of_fmap (files demo_ctx))" .
  then show ?thesis using demo_reach_final i demo_final_fields by (simp add: demo_ctx_def)
qed

theorem branch_atomic_witness:
  "reach demo_ctx demo_server demo_final \<and> inj (hsh demo_ctx) \<and>
   (branch_ref demo_ctx (srv demo_final) = branch_ref demo_ctx demo_server \<or>
    read_branch (srv demo_final) main_owner main_repo main_branch = Some [(''main.go'', ''package main'')])"
proof -
  have i: "inj (hsh demo_ctx)" by (simp add: demo_ctx_def inj_demo_hash)
  from branch_atomic [OF demo_reach_final i] demo_reach_final i show ?thesis
    by (simp add: demo_ctx_def)
qed

theorem send_never_blocks_witness:
  "reach demo_ctx demo_server demo_sending \<and> 0 < length (gors demo_sending) \<and>
   gors demo_sending ! 0 = GSend demo_result \<and> gor_step demo_ctx 0 Served demo_sending \<noteq> None"
proof -
  have r: "reach demo_ctx demo_server demo_sending"
    by (rule run_reach [OF demo_sending_run reach.init])
  have l: "0 < length (gors demo_sending)" and g: "gors demo_sending ! 0 = GSend demo_result"
    by (simp_all add: demo_sending_fields)
  from send_never_blocks [OF r l g] r l g show ?thesis by simp
qed

theorem quiescent_finished_witness:
  "reach demo_ctx demo_server demo_final \<and> (\<forall>ch. cmf_step demo_ctx ch demo_final = None) \<and>
   finished demo_final"
  using quiescent_finished [OF demo_reach_final] demo_reach_final demo_final_quiescent by simp

theorem commit_frame_witness:
  "reach demo_ctx demo_server demo_final \<and> tokens (srv demo_final) = tokens demo_server \<and>
   fmdrop (main_owner, main_repo) (repos (srv demo_final)) = fmdrop (main_owner, main_repo) (repos demo_server)"
  using commit_frame [OF demo_reach_final] demo_reach_final by (simp add: demo_ctx_def)

theorem main_token_unset_witness:
  "main_run demo_hash fmempty demo_fs demo_server ''0s''
     (ExitFatal ''GITHUB_TOKEN is not set in the environment'') demo_server [] \<and>
   getenv fmempty ''GITHUB_TOKEN'' = ''''"
proof -
  have r: "main_run demo_hash fmempty demo_fs demo_server ''0s''
     (ExitFatal ''GITHUB_TOKEN is not set in the environment'') demo_server []"
    by (rule main_run.setup_fatal) (simp add: model_simps)
  have g: "getenv fmempty ''GITHUB_TOKEN'' = ''''" by (simp add: getenv_def)
  from main_token_unset [OF r g] r g show ?thesis by simp
qed

theorem main_file_missing_witness:
  "main_run demo_hash demo_env fmempty demo_server ''0s''
     (ExitFatal ''Failed to read main.go: open main.go: no such file or directory'') demo_server [] \<and>
   getenv demo_env ''GITHUB_TOKEN'' \<noteq> '''' \<and> fmlookup (fmempty :: (string, string) fmap) ''main.go'' = None"
proof -
  have r: "main_run demo_hash demo_env fmempty demo_server ''0s''
     (ExitFatal ''Failed to read main.go: open main.go: no such file or directory'') demo_server []"
    by (rule main_run.setup_fatal) (simp add: model_simps Let_def)
  have g: "getenv demo_env ''GITHUB_TOKEN'' \<noteq> ''''" by (simp add: model_simps)
  have m: "fmlookup (fmempty :: (string, string) fmap) ''main.go'' = None" by simp
  from main_file_missing [OF r g m] r g m show ?thesis by simp
qed

theorem commit_output_witness:
  "reach demo_ctx demo_server demo_final \<and> inj (hsh demo_ctx) \<and>
   stdout demo_final =
     [commit_created_line (commit_url_of main_owner main_repo (demo_hash (files_commit demo_ctx)))]"
proof -
  have i: "inj (hsh demo_ctx)" by (simp add: demo_ctx_def inj_demo_hash)
  from commit_output [OF demo_reach_final i] demo_reach_final i demo_final_fields(1) show ?thesis
    by (simp add: demo_ctx_def)
qed

theorem update_lost_reports_error_witness:
  "reach demo_ctx demo_server demo_updating \<and> inj (hsh demo_ctx) \<and>
   (\<exists>rf cm. pc demo_updating = PUpdate rf cm) \<and>
   main_step demo_ctx (Lost demo_timeout) demo_updating = Some demo_lost \<and>
   pc demo_lost = PRet (Some (ErrWrap ''UpdateRef: '' demo_timeout)) \<and>
   read_branch (srv demo_lost) main_owner main_repo main_branch = Some [(''main.go'', ''package main'')]"
proof -
  have i: "inj (hsh demo_ctx)" by (simp add: demo_ctx_def inj_demo_hash)
  have r: "reach demo_ctx demo_server demo_updating"
    by (rule run_reach [OF demo_updating_run reach.init])
  from demo_updating_pc obtain rf cm where p: "pc demo_updating = PUpdate rf cm" by blast
  from update_lost_reports_error [OF r i p demo_updating_lost] r i p demo_updating_lost
  show ?thesis by (auto simp: demo_ctx_def)
qed

theorem returned_error_names_request_witness:
  "run demo_ctx demo_lost_schedule (init_cfg demo_server) = Some demo_lost \<and>
   pc demo_lost = PRet (Some (ErrWrap ''UpdateRef: '' demo_timeout)) \<and>
   (\<exists>bs. trace demo_ctx demo_lost_schedule (init_cfg demo_server) =
      ReqGetRef # map ReqBlob bs @ [ReqTree, ReqCommit, ReqUpdate])"
  using returned_error_names_request [OF demo_lost_run demo_lost_pc] demo_lost_run demo_lost_pc
  by auto

theorem concurrent_equals_sequential_witness:
  "sreach demo_ctx demo_server demo_final \<and> inj (hsh demo_ctx) \<and> pc demo_final = PRet None \<and>
   (None, srv demo_final, stdout demo_final) = commit_seq demo_ctx demo_server"
proof -
  have "list_all served demo_schedule" by (simp add: demo_schedule_def)
  from run_sreach [OF demo_run this sreach.init]
  have s: "sreach demo_ctx demo_server demo_final" .
  have i: "inj (hsh demo_ctx)" by (simp add: demo_ctx_def inj_demo_hash)
  from concurrent_equals_sequential [OF s i demo_final_fields(1)] s i demo_final_fields(1)
  show ?thesis by simp
qed

theorem writes_only_snapshot_witness:
  "reach demo_ctx demo_server demo_final \<and> inj (hsh demo_ctx) \<and>
   fmlookup (repo_objs demo_ctx (srv demo_final)) (demo_hash (GBlob ''package main'')) \<noteq>
     fmlookup (repo_objs demo_ctx demo_server) (demo_hash (GBlob ''package main'')) \<and>
   (\<exists>ob\<in>set (new_objs demo_ctx). demo_hash (GBlob ''package main'') = hsh demo_ctx ob \<and>
      fmlookup (repo_objs demo_ctx (srv demo_final)) (demo_hash (GBlob ''package main'')) = Some ob)"
proof -
  have i: "inj (hsh demo_ctx)" by (simp add: demo_ctx_def inj_demo_hash)
  have d: "fmlookup (repo_objs demo_ctx (srv demo_final)) (demo_hash (GBlob ''package main'')) \<noteq>
     fmlookup (repo_objs demo_ctx demo_server) (demo_hash (GBlob ''package main''))"
    by (simp add: demo_final_def repo_objs_def repo_of_def model_simps Let_def)
  from writes_only_snapshot [OF demo_reach_final i d] demo_reach_final i d show ?thesis by simp
qed

theorem error_keeps_branch_witness:
  "reach demo_ctx demo_server demo_failed \<and>
   pc demo_failed = PRet (Some (ErrWrap ''GetRef: '' demo_net_error)) \<and>
   (\<forall>e'. ErrWrap ''GetRef: '' demo_net_error \<noteq> ErrWrap ''UpdateRef: '' e') \<and>
   branch_ref demo_ctx (srv demo_failed) = branch_ref demo_ctx demo_server"
proof -
  have r: "reach demo_ctx demo_server demo_failed"
    by (rule run_reach [OF demo_failed_run reach.init])
  have n: "\<forall>e'. ErrWrap ''GetRef: '' demo_net_error \<noteq> ErrWrap ''UpdateRef: '' e'" by simp
  from error_keeps_branch [OF r demo_failed_fields n] r demo_failed_fields n show ?thesis by simp
qed

theorem requests_in_order_witness:
  "run demo_ctx demo_schedule (init_cfg demo_server) = Some demo_final \<and>
   (trace demo_ctx demo_schedule (init_cfg demo_server) = [] \<or>
    (\<exists>bs k. trace demo_ctx demo_schedule (init_cfg demo_server) =
              ReqGetRef # map ReqBlob bs @ take k [ReqTree, ReqCommit, ReqUpdate] \<and>
            mset bs \<subseteq># mset (all_paths demo_ctx)))"
  using requests_in_order [OF demo_run] demo_run by simp

theorem success_requests_witness:
  "run demo_ctx demo_schedule (init_cfg demo_server) = Some demo_final \<and> pc demo_final = PRet None \<and>
   (\<exists>bs. trace demo_ctx demo_schedule (init_cfg demo_server) =
           ReqGetRef # map ReqBlob bs @ [ReqTree, ReqCommit, ReqUpdate] \<and>
         mset bs = mset (all_paths demo_ctx))"
  using success_requests [OF demo_run demo_final_fields(1)] demo_run demo_final_fields(1) by simp

theorem history_replaced_witness:
  "reach demo_ctx demo_server demo_final \<and> inj (hsh demo_ctx) \<and> pc demo_final = PRet None \<and>
   (\<exists>r sha. repo_of demo_ctx (srv demo_final) = Some r \<and> fmlookup (refs r) (refname demo_ctx) = Some sha \<and>
      fmlookup (objects r) sha = Some (GCommit (message demo_ctx) (hsh demo_ctx (files_tree demo_ctx)) []))"
proof -
  have i: "inj (hsh demo_ctx)" by (simp add: demo_ctx_def inj_demo_hash)
  from history_replaced [OF demo_reach_final i demo_final_fields(1)] demo_reach_final i demo_final_fields(1)
  show ?thesis by simp
qed

end
