(* ===== verification/Spec2Isabelle.thy ===== *)
theory Spec2Isabelle
  imports Scenarios
begin

text \<open>
  \<^bold>\<open>A verified model of src/main.go.\<close>

  \<^bold>\<open>The program.\<close>  src/main.go has two functions.  \<open>main\<close> (lines 92--146) reads
  \<open>GITHUB_TOKEN\<close>, reads the local file \<open>main.go\<close> into a map, builds a GitHub
  client and calls \<open>commitMultipleFiles\<close> with a fixed owner, repository, branch
  and message.  It exits through \<open>log.Fatal\<close> on any error and otherwise prints a
  timing line.  \<open>commitMultipleFiles\<close> (lines 14--90) replaces the branch's content
  with the given files.  It reads the branch reference (\<open>GetRef\<close>) and starts one
  goroutine per file.  Each goroutine calls \<open>CreateBlob\<close> and sends a
  \<open>blobResult\<close> on a channel buffered to \<open>len(files)\<close>.  The caller receives
  \<open>len(files)\<close> results and returns on the first failed blob.  It then calls
  \<open>CreateTree\<close> (no base tree), \<open>CreateCommit\<close> (no parent) and \<open>UpdateRef\<close> with
  \<open>force = true\<close>, and prints \<open>Commit created: <url>\<close>.

  \<^bold>\<open>Theories, in import order.\<close>
  \<^item> \<open>Prelude\<close>: the types \<open>sha\<close>, \<open>path\<close> and \<open>content\<close>, the collection
    \<open>model_simps\<close> of definitions that evaluate a run, and lemmas on sorted
    \<open>fmap\<close> listings and lists that the other theories share.
  \<^item> \<open>GoErrors\<close>: Go error values as the datatype \<open>goerr\<close>, in which
    \<open>fmt.Errorf("...: %w", e)\<close> is \<open>ErrWrap\<close>, with \<open>Error()\<close> as \<open>err_msg\<close>.
  \<^item> \<open>Channel\<close>: a buffered Go channel as a FIFO with a capacity.
    \<open>chan_send\<close> is \<open>None\<close> when the buffer is full and \<open>chan_recv\<close> is \<open>None\<close>
    when it is empty; \<open>None\<close> means the operation blocks.
  \<^item> \<open>GitApi\<close>: the GitHub Git data API that the go-github calls reach.  It is not
    in src/ and is modelled from the API's documented behaviour.  A server maps
    (owner, repository) to a content-addressed object store and references, and
    holds its valid tokens.  The operations \<open>get_ref_op\<close>, \<open>create_blob_op\<close>,
    \<open>create_tree_op\<close>, \<open>create_commit_op\<close> and \<open>update_ref_op\<close> each return an
    error or a result with the updated repository.  \<open>with_repo\<close> checks the token
    and looks up the repository.  \<open>net_call\<close> models the network: \<open>Served\<close>;
    \<open>Dropped e\<close>, where the request is lost; and \<open>Lost e\<close>, where the request is
    applied but the response is lost.  The hash function is a parameter \<open>hsh\<close>.
    Theorems that read objects back assume it injective.  A commit object holds
    its message, tree and parents only (see "Not modelled").
  \<^item> \<open>CommitFiles\<close>: \<open>commitMultipleFiles\<close> as a small-step semantics.  A
    configuration \<open>cfg\<close> holds the server, the list of blob goroutines (\<open>gor\<close>:
    about to call \<open>CreateBlob\<close>, about to send, exited), the results channel, the
    caller's program point \<open>mpc\<close> (with its locals) and standard output.
    \<open>main_step\<close> is one statement of the caller, lines 17--89.  \<open>spawn_step j\<close>
    starts the goroutine of the \<open>j\<close>-th file not yet visited, so every order of
    Go's map iteration is covered.  \<open>gor_step\<close> is one statement of a goroutine,
    lines 36--46.  The scheduler's choice is \<open>sched\<close>; \<open>cmf_step\<close> takes one step
    and \<open>reach\<close> gives the configurations every schedule and every network
    behaviour can reach.  \<open>run\<close> executes one given schedule.
  \<^item> \<open>FanOut\<close>: the channel discipline.  \<open>cap_inv\<close> says that the buffered
    results, the goroutines that have not yet sent and the results still to
    receive fit the capacity \<open>len(files)\<close>.  Every step preserves it.  From it:
    a send never blocks (C3); a configuration where nothing can move has
    returned with every goroutine exited, so there is no deadlock and no leak
    (C4).  The measure \<open>rank\<close> falls at every step, so the step relation is
    well-founded (\<open>cmf_terminates\<close>) and a run takes at most
    \<open>4 * len(files) + 8\<close> steps (\<open>run_length_bound\<close>); C19 uses both.
  \<^item> \<open>CommitCorrect\<close>: functional correctness, under an injective hash.
    \<open>content_inv\<close> ties each program point to what the server then holds: stored
    blobs, entries matching the files, the tree and commit of exactly the files.
    \<open>atomic_inv\<close> says the branch is either unchanged or at that commit.  Each
    is preserved by every step.  Hence a \<open>nil\<close> return means the branch holds
    exactly the files (C1), and no execution leaves a partial tree (C2).
    The new branch head is a root commit with the call's message: the call
    replaces the branch's history (C22).
  \<^item> \<open>CommitFrame\<close>: for any hash, the server's tokens, the other repositories
    and the other references never change (C5).  An error from any step but
    \<open>UpdateRef\<close> leaves the branch where it was (C18).  \<open>reach_ret_ok\<close> shows
    that every returned error is wrapped with one of the five step prefixes, and
    \<open>step_prefix_cases\<close> splits them; \<open>Requests\<close> ties each to its step.
  \<^item> \<open>CommitOutput\<close>: the \<open>Println\<close> of line 88.  Output appears only after a
    \<open>nil\<close> return, and is then the single line with the commit's URL (C11).
  \<^item> \<open>GoMain\<close>: \<open>main\<close>.  The environment and the file system are finite maps.
    \<open>main_setup\<close> is lines 94--127 up to the call, and \<open>main_run\<close> relates the
    inputs to the exit status, the final server and standard output.  The call
    is any \<open>reach\<close>able configuration in which \<open>commitMultipleFiles\<close> has
    returned; leftover goroutines die with the process.  Fatal exits before the
    call: C9 and C10.  The file-reading loop computes the file system
    restricted to the listed paths, or the error of the first missing one (C17).
  \<^item> \<open>Sequential\<close>: a sequential reference \<open>commit_seq\<close>.  It makes the same API
    calls one after another, creating the blobs in path order, over a network
    that serves every request.  \<open>commit_seq_ok\<close> computes its result in closed
    form when the token, the repository and the branch are valid.
  \<^item> \<open>ObjectStore\<close>: what the program writes into the object store, for any
    schedule and network.  \<open>step_obj\<close> and \<open>writes\<close> describe the single object a
    step may write.  Every changed entry holds a blob of a given file, their
    tree or their commit under its hash (C16).
  \<^item> \<open>Equivalence\<close>: under a reliable network (\<open>sreach\<close>, schedules whose
    network choices are all \<open>Served\<close>), the concurrent function is equivalent
    to the reference.  Every schedule that returns gives the reference's
    result, final server and output (C15).  \<open>served_inv\<close> shows that nothing
    fails after a successful \<open>GetRef\<close>.  \<open>final_server\<close> rebuilds the final
    server from the frame (\<open>frame_put_repo\<close>, \<open>frame_refs\<close>), object and
    branch invariants; the proof follows the invariant method for a concurrent
    fold.  Under a lossy network the equivalence ends where a response is lost:
    \<open>reach_called_ok\<close> shows the credentials were valid once \<open>GetRef\<close>
    succeeded, and from it a lost \<open>UpdateRef\<close> response, in any configuration
    about to update, makes the call report \<open>UpdateRef: ...\<close> although the branch
    already holds exactly the files (C14).
  \<^item> \<open>Requests\<close>: the API requests a run issues, as a trace.  \<open>api_req\<close>
    names the five calls and \<open>step_req\<close> the request a step sends, if any;
    \<open>trace\<close> collects them along a schedule.  \<open>req_inv\<close> fixes the trace's
    shape at every program point.  The requests are \<open>GetRef\<close>, then one
    \<open>CreateBlob\<close> per file in some order, then \<open>CreateTree\<close>,
    \<open>CreateCommit\<close> and \<open>UpdateRef\<close> as far as the run got (C20).  A returned
    error carries the prefix of the last request sent (C6).  A \<open>nil\<close> return
    has sent one blob request for each file and the three final requests (C21).
  \<^item> \<open>Scenarios\<close>: concrete inputs, namely the program's own constants, a server
    with the branch, and a collision-free stand-in hash.  It runs four
    schedules, all evaluated by the simplifier: a success, a run stopped while a
    goroutine is about to send, a dropped \<open>GetRef\<close>, and a run whose
    \<open>UpdateRef\<close> response is lost.  It holds the witnesses of the component
    theorems.
  \<^item> This theory: properties of whole runs of \<open>main\<close>, namely success (C7),
    atomicity (C8), no output on a fatal exit (C12), frame (C13), and that
    \<open>main\<close> always exits (C19): no execution runs forever and every execution
    that cannot continue is an exit of \<open>main\<close>.  Their witnesses follow them.

  \<^bold>\<open>Bounds and fuel.\<close>  Steps are counted by \<open>rank\<close>; \<open>run_length_bound\<close>
  shows \<open>4 * len(files) + 8\<close> steps are enough for every schedule.  The server's
  ancestry check \<open>ancestor_within\<close> uses as fuel the number of stored objects.
  That is the length of the longest parent chain without repetition.  This
  sufficiency is not proved here.  The program always forces the update, so the
  check is never consulted on its runs.

  \<^bold>\<open>Not modelled.\<close>
  \<^item> The OAuth2 token source and the HTTP transport, other than the token
    check and the three network outcomes.
  \<^item> The author and committer of a commit.  Lines 71--74 set neither, so GitHub
    fills in the authenticated user and the current time, and a commit's sha
    depends on when it was made.  The model's commit holds message, tree and
    parents only, so \<open>CreateCommit\<close> is deterministic.  No theorem compares
    commits made at different times.  C15 compares the concurrent call with a
    reference that makes the same call at the same moment.
  \<^item> \<open>os.ReadFile\<close> errors other than a missing file (permissions, a
    directory).  Every read failure is a missing map entry with the
    \<open>no such file or directory\<close> text.
  \<^item> The duration measured by \<open>time.Since\<close>, which is a free argument of
    \<open>main_run\<close>.
  \<^item> The commented-out \<open>createRepo\<close> call and summary printing.
  \<^item> Base64 blobs and base trees, which the program never uses.
  \<^item> Scheduler fairness, which is not needed because every execution ends
    (C19).
  \<^item> The import block (lines 1--13).  Every other line of src/main.go has a
    definition.  The Git API and Go's channels and errors are modelled only as
    far as the program uses them.

  \<^bold>\<open>Extensions.\<close>  The model supports further results:
  \<^item> a non-forced \<open>UpdateRef\<close> and its fast-forward check, which the program
    never uses;
  \<^item> equivalence with the reference under a lossy network, where the reference
    would need the same failure points;
  \<^item> \<open>CreateTree\<close> with a base tree;
  \<^item> commit timestamps, as a clock in the server state.
\<close>

section \<open>Properties of the whole program\<close>

text \<open>C7: a run of \<open>main\<close> that exits normally leaves the branch \<open>main\<close> of
  \<open>Santosh-etailify/gitapis6\<close> holding exactly one file, \<open>main.go\<close>, with the content
  \<open>main\<close> read from disk, and prints two lines: \<open>Commit created: \<close> with the URL of
  the commit the branch now points to, then the timing line.\<close>

theorem main_success:
  assumes run: "main_run h env fsys s d ExitOk s' out" and inj: "inj h"
  shows "\<exists>v sha. fmlookup fsys ''main.go'' = Some v \<and>
    read_branch s' main_owner main_repo main_branch = Some [(''main.go'', v)] \<and>
    main_head s' = Some sha \<and>
    out = [commit_created_line (commit_url_of main_owner main_repo sha), timing_line d]"
proof -
  from run obtain x c where su: "main_setup h env fsys = Inr x" and r: "reach x s c"
    and p: "pc c = PRet None" and sv: "s' = srv c" and ou: "out = stdout c @ [timing_line d]"
    by (cases rule: main_run.cases) auto
  have x: "hsh x = h" "owner x = main_owner" "repo_name x = main_repo"
    using main_setup_Inr [OF su] by simp_all
  with inj have ix: "inj (hsh x)" by simp
  from reach_atomic_inv [OF r ix] p
  have b: "branch_ref x (srv c) = Some (hsh x (files_commit x))" and st: "snapshot_stored x (srv c)"
    by (simp_all add: atomic_inv_def)
  from reach_out_inv [OF r ix] p
  have so: "stdout c = [commit_created_line (commit_url_of (owner x) (repo_name x) (hsh x (files_commit x)))]"
    by (simp add: out_inv_def)
  obtain v where v: "fmlookup fsys ''main.go'' = Some v"
    and fl: "sorted_list_of_fmap (files x) = [(''main.go'', v)]"
    by (rule main_setup_files [OF su])
  from snapshot_read_branch [OF b st] main_setup_read_branch [OF su] fl
  have "read_branch (srv c) main_owner main_repo main_branch = Some [(''main.go'', v)]" by simp
  moreover from b main_setup_branch_ref [OF su]
  have "main_head (srv c) = Some (hsh x (files_commit x))" by simp
  ultimately show ?thesis using v sv ou so x by auto
qed

text \<open>C8: every run of \<open>main\<close>, also one that ends in \<open>log.Fatal\<close>, leaves the branch
  either where it was or at a commit holding exactly \<open>main.go\<close> with its content on
  disk: never at a partial tree.\<close>

theorem main_branch_atomic:
  assumes run: "main_run h env fsys s d st s' out" and inj: "inj h"
  shows "main_head s' = main_head s \<or>
    (\<exists>v. fmlookup fsys ''main.go'' = Some v \<and>
         read_branch s' main_owner main_repo main_branch = Some [(''main.go'', v)])"
proof (cases "\<exists>x c. main_setup h env fsys = Inr x \<and> reach x s c \<and> s' = srv c")
  case True
  then obtain x c where su: "main_setup h env fsys = Inr x" and r: "reach x s c"
    and sv: "s' = srv c" by blast
  from main_setup_Inr [OF su] inj have ix: "inj (hsh x)" by simp
  obtain v where v: "fmlookup fsys ''main.go'' = Some v"
    and fl: "sorted_list_of_fmap (files x) = [(''main.go'', v)]"
    by (rule main_setup_files [OF su])
  from reach_atomic_inv [OF r ix]
  have "branch_ref x (srv c) = branch_ref x s \<or>
        read_branch (srv c) (owner x) (repo_name x) (branch x) = Some (sorted_list_of_fmap (files x))"
    by (auto simp: atomic_inv_def intro: snapshot_read_branch)
  then show ?thesis
    using v fl sv main_setup_branch_ref [OF su] main_setup_read_branch [OF su] by auto
next
  case False
  with run show ?thesis by (cases rule: main_run.cases) auto
qed

text \<open>C12: a run of \<open>main\<close> that ends in \<open>log.Fatal\<close> has printed nothing to
  standard output, whether it stopped before the call or on the error the call
  returned; this holds for any hash function.\<close>

theorem main_fatal_quiet:
  assumes "main_run h env fsys s d (ExitFatal m) s' out"
  shows "out = []"
  using assms
proof (cases rule: main_run.cases)
  case (commit_fatal x c e)
  then show ?thesis using reach_quiet [of x s c] by simp
qed simp

text \<open>C13: no run of \<open>main\<close> changes the server's tokens or any repository other
  than \<open>Santosh-etailify/gitapis6\<close>, for any hash function and any behaviour of the
  network.\<close>

theorem main_frame:
  assumes "main_run h env fsys s d st s' out"
  shows "tokens s' = tokens s \<and>
    fmdrop (main_owner, main_repo) (repos s') = fmdrop (main_owner, main_repo) (repos s)"
  using assms
proof (cases rule: main_run.cases)
  case (commit_fatal x c e)
  with reach_frame_ok [of x s c] main_setup_Inr [of h env fsys x] show ?thesis
    by (simp add: frame_ok_def)
next
  case (commit_ok x c)
  with reach_frame_ok [of x s c] main_setup_Inr [of h env fsys x] show ?thesis
    by (simp add: frame_ok_def)
qed simp

text \<open>C19: \<open>main\<close> always exits, whatever the schedule and the network.  If the
  setup fails, it exits at once through \<open>log.Fatal\<close>.  Otherwise no execution of
  \<open>commitMultipleFiles\<close> runs forever, and every execution that can go no further
  has returned with every blob goroutine exited, in a configuration that \<open>main\<close>
  turns into an exit (\<open>log.Fatal\<close> with the returned error, or the timing line).\<close>

theorem main_exits:
  "(case main_setup h env fsys of
      Inl m \<Rightarrow> main_run h env fsys s d (ExitFatal m) s []
    | Inr x \<Rightarrow>
        wf {(c', c). reach x s c \<and> (\<exists>ch. cmf_step x ch c = Some c')} \<and>
        (\<forall>c. reach x s c \<and> (\<forall>ch. cmf_step x ch c = None) \<longrightarrow>
           finished c \<and> (\<exists>st out. main_run h env fsys s d st (srv c) out)))"
proof (cases "main_setup h env fsys")
  case (Inl m)
  then show ?thesis by (simp add: main_run.setup_fatal)
next
  case (Inr x)
  have "wf {(c', c). reach x s c \<and> (\<exists>ch. cmf_step x ch c = Some c')}"
    by (rule wf_subset [OF cmf_terminates [of x]]) blast
  moreover have "finished c \<and> (\<exists>st out. main_run h env fsys s d st (srv c) out)"
    if r: "reach x s c" and stuck: "\<forall>ch. cmf_step x ch c = None" for c
  proof -
    have fin: "finished c"
    proof (rule ccontr)
      assume "\<not> finished c"
      from unfinished_enabled [OF reach_cap_inv [OF r] this] stuck show False by auto
    qed
    then obtain res where p: "pc c = PRet res" by (auto simp: finished_def)
    have "\<exists>st out. main_run h env fsys s d st (srv c) out"
    proof (cases res)
      case None
      with Inr r p show ?thesis by (blast intro: main_run.commit_ok)
    next
      case (Some e)
      with Inr r p show ?thesis by (blast intro: main_run.commit_fatal)
    qed
    with fin show ?thesis by blast
  qed
  ultimately show ?thesis using Inr by auto
qed

section \<open>Witnesses of the program-level properties\<close>

theorem main_success_witness:
  "main_run demo_hash demo_env demo_fs demo_server ''1.2s'' ExitOk (srv demo_final)
     (stdout demo_final @ [timing_line ''1.2s'']) \<and> inj demo_hash \<and>
   read_branch (srv demo_final) main_owner main_repo main_branch = Some [(''main.go'', ''package main'')]"
proof -
  from main_success [OF demo_main_ok inj_demo_hash]
  have "read_branch (srv demo_final) main_owner main_repo main_branch = Some [(''main.go'', ''package main'')]"
    by (auto simp: demo_fs_def)
  with demo_main_ok inj_demo_hash show ?thesis by simp
qed

theorem main_branch_atomic_witness:
  "main_run demo_hash demo_env demo_fs demo_server ''0.1s''
     (ExitFatal (''Failed to upsert files: '' @ err_msg (ErrWrap ''GetRef: '' demo_net_error)))
     (srv demo_failed) (stdout demo_failed) \<and> inj demo_hash \<and>
   (main_head (srv demo_failed) = main_head demo_server \<or>
    (\<exists>v. fmlookup demo_fs ''main.go'' = Some v \<and>
         read_branch (srv demo_failed) main_owner main_repo main_branch = Some [(''main.go'', v)]))"
  using main_branch_atomic [OF demo_main_failed inj_demo_hash] demo_main_failed inj_demo_hash by simp

theorem main_fatal_quiet_witness:
  "main_run demo_hash demo_env demo_fs demo_server ''0.1s''
     (ExitFatal (''Failed to upsert files: '' @ err_msg (ErrWrap ''GetRef: '' demo_net_error)))
     (srv demo_failed) (stdout demo_failed) \<and> stdout demo_failed = []"
  using main_fatal_quiet [OF demo_main_failed] demo_main_failed by simp

theorem main_frame_witness:
  "main_run demo_hash demo_env demo_fs demo_server ''1.2s'' ExitOk (srv demo_final)
     (stdout demo_final @ [timing_line ''1.2s'']) \<and>
   tokens (srv demo_final) = [demo_token] \<and>
   fmdrop (main_owner, main_repo) (repos (srv demo_final)) = fmempty"
proof -
  from main_frame [OF demo_main_ok]
  have "tokens (srv demo_final) = tokens demo_server \<and>
    fmdrop (main_owner, main_repo) (repos (srv demo_final)) = fmdrop (main_owner, main_repo) (repos demo_server)" .
  with demo_main_ok show ?thesis by (simp add: demo_server_def fmdrop_fmupd_same)
qed

theorem main_exits_witness:
  "main_setup demo_hash demo_env demo_fs = Inr demo_ctx \<and>
   wf {(c', c). reach demo_ctx demo_server c \<and> (\<exists>ch. cmf_step demo_ctx ch c = Some c')} \<and>
   reach demo_ctx demo_server demo_final \<and> (\<forall>ch. cmf_step demo_ctx ch demo_final = None) \<and>
   finished demo_final \<and>
   (\<exists>st out. main_run demo_hash demo_env demo_fs demo_server ''1.2s'' st (srv demo_final) out)"
  using main_exits [of demo_hash demo_env demo_fs demo_server "''1.2s''"] demo_setup demo_reach_final
    demo_final_quiescent
  by simp

end
